theory Spec2Isabelle
  imports Complex_Main "HOL-Library.AList"
begin

section \<open>The VAT identifier checker: a shallow embedding\<close>

text \<open>
  The repository holds two versions of one request handler:
  \<^item> \<^verbatim>\<open>src/unnamed/part_000\<close>: the handler with the in-memory rate limiter, the
    table of 29 country patterns and the VIES lookup (here \<open>handler\<close>, \<open>vatFormats\<close>);
  \<^item> \<^verbatim>\<open>src/api/check-vat.js\<close>: the handler without rate limiter, with a table of
    27 patterns (here \<open>handler_api\<close>, \<open>vatFormats_api\<close>).

  What the handler reads from its surroundings is an explicit input: the clock
  (\<^verbatim>\<open>Date.now()\<close>, \<^verbatim>\<open>new Date().toISOString()\<close>), the random draw
  (\<^verbatim>\<open>Math.random()\<close>), the outcome of the outbound \<^verbatim>\<open>fetch\<close> and the uppercase mapping
  of the runtime's Unicode tables. The process-wide
  \<^verbatim>\<open>rateLimiter\<close> map is passed in and returned. Logging is left out: it changes neither
  the response nor the map.
\<close>

subsection \<open>Strings\<close>

text \<open>
  A string of the source is a sequence of UTF-16 code units, here natural numbers (a code
  unit is below 65536). \<open>js\<close> writes a literal of the source: each of its characters
  is one code unit. Header names and values, methods and the names of object properties
  are compared with literals only and stay Isabelle strings.
\<close>

type_synonym jstring = "nat list"

definition js :: "string \<Rightarrow> jstring" where
  "js s = map of_char s"

text \<open>
  \<^verbatim>\<open>\s\<close> of a regular expression: the white space and line terminator code units of
  ECMAScript (tab, LF, VT, FF, CR, space, U+00A0, U+1680, U+2000 to U+200A, U+2028,
  U+2029, U+202F, U+205F, U+3000, U+FEFF).
\<close>

definition whitespace :: "nat list" where
  "whitespace =
    [0x09, 0x0A, 0x0B, 0x0C, 0x0D, 0x20, 0xA0, 0x1680,
     0x2000, 0x2001, 0x2002, 0x2003, 0x2004, 0x2005, 0x2006, 0x2007, 0x2008, 0x2009, 0x200A,
     0x2028, 0x2029, 0x202F, 0x205F, 0x3000, 0xFEFF]"

text \<open>\<^verbatim>\<open>s.replace(/\s/g, '')\<close>: without the \<^verbatim>\<open>u\<close> flag the pattern reads code units.\<close>

definition strip_whitespace :: "jstring \<Rightarrow> jstring" where
  "strip_whitespace s = filter (\<lambda>u. u \<notin> set whitespace) s"

text \<open>
  \<^verbatim>\<open>s.toUpperCase()\<close> as ECMAScript defines it: the string is read as code points (a
  high surrogate followed by a low one is one code point, any other code unit is a code
  point of its own), every code point is replaced by its uppercase mapping, which is a
  sequence of code points (one for most, \<open>SS\<close> for the sharp s), and the result is
  written back as code units. The uppercase mapping is a table of Unicode that the
  runtime holds and the repository does not: it is the parameter \<open>up\<close>.
\<close>

definition high_surrogate :: "nat \<Rightarrow> bool" where
  "high_surrogate u = (0xD800 \<le> u \<and> u \<le> 0xDBFF)"

definition low_surrogate :: "nat \<Rightarrow> bool" where
  "low_surrogate u = (0xDC00 \<le> u \<and> u \<le> 0xDFFF)"

fun code_points :: "jstring \<Rightarrow> nat list" where
  "code_points (h # l # r) =
     (if high_surrogate h \<and> low_surrogate l
      then (0x10000 + (h - 0xD800) * 0x400 + (l - 0xDC00)) # code_points r
      else h # code_points (l # r))"
| "code_points [u] = [u]"
| "code_points [] = []"

definition code_units :: "nat \<Rightarrow> jstring" where
  "code_units c =
     (if c < 0x10000 then [c]
      else [0xD800 + (c - 0x10000) div 0x400, 0xDC00 + (c - 0x10000) mod 0x400])"

definition toUpperCase :: "(nat \<Rightarrow> nat list) \<Rightarrow> jstring \<Rightarrow> jstring" where
  "toUpperCase up s = concat (map code_units (concat (map up (code_points s))))"

text \<open>\<^verbatim>\<open>const cleanVatId = vatId.toString().replace(/\s/g, '').toUpperCase();\<close>\<close>

definition cleanVatId :: "(nat \<Rightarrow> nat list) \<Rightarrow> jstring \<Rightarrow> jstring" where
  "cleanVatId up vatId = toUpperCase up (strip_whitespace vatId)"

text \<open>\<^verbatim>\<open>cleanVatId.substring(0, 2)\<close> and \<^verbatim>\<open>cleanVatId.substring(2)\<close>, which count code units\<close>

definition countryCode :: "jstring \<Rightarrow> jstring" where
  "countryCode clean = take 2 clean"

definition vatNumber :: "jstring \<Rightarrow> jstring" where
  "vatNumber clean = drop 2 clean"

text \<open>The umlauts of the German messages (U+00E4 and U+00FC).\<close>

definition ae :: jstring where "ae = [0xE4]"
definition ue :: jstring where "ue = [0xFC]"

subsection \<open>Regular expressions\<close>

text \<open>
  The patterns of the source use literals, character classes, a class repeated between
  \<open>m\<close> and \<open>n\<close> times, alternation and sequence, all over ASCII characters. \<open>rx r s\<close>
  lists what is left of \<open>s\<close> after each way \<open>r\<close> can match a prefix of it; every
  pattern of the source is anchored by \<^verbatim>\<open>^\<close> and \<^verbatim>\<open>$\<close>, so \<^verbatim>\<open>r.test(s)\<close> holds when
  nothing can be left.
\<close>

datatype regex =
    Lit string
  | Cls "char list"
  | Rep "char list" nat nat
  | Alt regex regex
  | Seq regex regex

fun rep_match :: "char list \<Rightarrow> nat \<Rightarrow> nat \<Rightarrow> jstring \<Rightarrow> jstring list" where
  "rep_match cs m 0 s = (if m = 0 then [s] else [])"
| "rep_match cs m (Suc n) s =
     (if m = 0 then [s] else []) @
     (case s of [] \<Rightarrow> [] | u # t \<Rightarrow> if u \<in> set (js cs) then rep_match cs (m - 1) n t else [])"

fun rx :: "regex \<Rightarrow> jstring \<Rightarrow> jstring list" where
  "rx (Lit l) s = (if take (length l) s = js l then [drop (length l) s] else [])"
| "rx (Cls cs) s = (case s of [] \<Rightarrow> [] | u # t \<Rightarrow> if u \<in> set (js cs) then [t] else [])"
| "rx (Rep cs m n) s = rep_match cs m n s"
| "rx (Alt a b) s = rx a s @ rx b s"
| "rx (Seq a b) s = concat (map (rx b) (rx a s))"

definition test :: "regex \<Rightarrow> jstring \<Rightarrow> bool" where
  "test r s = ([] \<in> set (rx r s))"

text \<open>\<^verbatim>\<open>\d\<close>, \<^verbatim>\<open>[A-Z]\<close>, \<^verbatim>\<open>[A-W]\<close>, \<^verbatim>\<open>[A-Z0-9]\<close>, \<^verbatim>\<open>[A-HJ-NP-Z0-9]\<close>, \<^verbatim>\<open>[A-Z*+]\<close>\<close>

definition digit :: "char list" where
  "digit = ''0123456789''"

definition A_Z :: "char list" where
  "A_Z = ''ABCDEFGHIJKLMNOPQRSTUVWXYZ''"

definition A_W :: "char list" where
  "A_W = ''ABCDEFGHIJKLMNOPQRSTUVW''"

definition A_Z0_9 :: "char list" where
  "A_Z0_9 = A_Z @ digit"

definition A_HJ_NP_Z0_9 :: "char list" where
  "A_HJ_NP_Z0_9 = ''ABCDEFGH'' @ ''JKLMN'' @ ''PQRSTUVWXYZ'' @ digit"

definition A_Z_star_plus :: "char list" where
  "A_Z_star_plus = A_Z @ ''*+''"

subsection \<open>The rule tables\<close>

text \<open>
  \<^verbatim>\<open>vatFormats\<close> of \<^verbatim>\<open>src/unnamed/part_000\<close>, lines 71 to 101, in the source's order.
  \<^verbatim>\<open>vatFormats[countryCode]\<close> is \<open>lookup\<close> in this list: the keys have two letters, the
  country code has at most two code units, and no property that an object literal
  inherits has so short a name.
\<close>

definition lookup :: "(string \<times> 'a) list \<Rightarrow> jstring \<Rightarrow> 'a option" where
  "lookup table key = map_of (map (\<lambda>(k, v). (js k, v)) table) key"

definition vatFormats :: "(string \<times> regex) list" where
  "vatFormats =
    [(''AT'', Seq (Lit ''ATU'') (Rep digit 8 8)),
     (''BE'', Seq (Lit ''BE'') (Alt (Seq (Lit ''0'') (Rep digit 9 9)) (Rep digit 10 10))),
     (''BG'', Seq (Lit ''BG'') (Rep digit 9 10)),
     (''CY'', Seq (Lit ''CY'') (Seq (Rep digit 8 8) (Cls A_Z))),
     (''CZ'', Seq (Lit ''CZ'') (Rep digit 8 10)),
     (''DE'', Seq (Lit ''DE'') (Rep digit 9 9)),
     (''DK'', Seq (Lit ''DK'') (Rep digit 8 8)),
     (''EE'', Seq (Lit ''EE'') (Rep digit 9 9)),
     (''GR'', Seq (Lit ''EL'') (Rep digit 9 9)),
     (''EL'', Seq (Lit ''EL'') (Rep digit 9 9)),
     (''ES'', Seq (Lit ''ES'') (Seq (Cls A_Z0_9) (Seq (Rep digit 7 7) (Cls A_Z0_9)))),
     (''FI'', Seq (Lit ''FI'') (Rep digit 8 8)),
     (''FR'', Seq (Lit ''FR'') (Seq (Rep A_HJ_NP_Z0_9 2 2) (Rep digit 9 9))),
     (''HR'', Seq (Lit ''HR'') (Rep digit 11 11)),
     (''HU'', Seq (Lit ''HU'') (Rep digit 8 8)),
     (''IE'', Seq (Lit ''IE'')
        (Alt (Seq (Rep digit 7 7) (Cls A_W))
             (Seq (Cls digit) (Seq (Cls A_Z_star_plus) (Seq (Rep digit 5 5) (Cls A_W)))))),
     (''IT'', Seq (Lit ''IT'') (Rep digit 11 11)),
     (''LT'', Seq (Lit ''LT'') (Alt (Rep digit 9 9) (Rep digit 12 12))),
     (''LU'', Seq (Lit ''LU'') (Rep digit 8 8)),
     (''LV'', Seq (Lit ''LV'') (Rep digit 11 11)),
     (''MT'', Seq (Lit ''MT'') (Rep digit 8 8)),
     (''NL'', Seq (Lit ''NL'') (Seq (Rep digit 9 9) (Seq (Lit ''B'') (Rep digit 2 2)))),
     (''PL'', Seq (Lit ''PL'') (Rep digit 10 10)),
     (''PT'', Seq (Lit ''PT'') (Rep digit 9 9)),
     (''RO'', Seq (Lit ''RO'') (Rep digit 2 10)),
     (''SE'', Seq (Lit ''SE'') (Rep digit 12 12)),
     (''SI'', Seq (Lit ''SI'') (Rep digit 8 8)),
     (''SK'', Seq (Lit ''SK'') (Rep digit 10 10)),
     (''XI'', Seq (Lit ''XI'') (Rep digit 9 9))]"

text \<open>\<^verbatim>\<open>vatFormats\<close> of \<^verbatim>\<open>src/api/check-vat.js\<close>, lines 34 to 62: no \<^verbatim>\<open>EL\<close>, no \<^verbatim>\<open>XI\<close>.\<close>

definition vatFormats_api :: "(string \<times> regex) list" where
  "vatFormats_api =
    [(''AT'', Seq (Lit ''ATU'') (Rep digit 8 8)),
     (''BE'', Seq (Lit ''BE'') (Alt (Seq (Lit ''0'') (Rep digit 9 9)) (Rep digit 10 10))),
     (''BG'', Seq (Lit ''BG'') (Rep digit 9 10)),
     (''CY'', Seq (Lit ''CY'') (Seq (Rep digit 8 8) (Cls A_Z))),
     (''CZ'', Seq (Lit ''CZ'') (Rep digit 8 10)),
     (''DE'', Seq (Lit ''DE'') (Rep digit 9 9)),
     (''DK'', Seq (Lit ''DK'') (Rep digit 8 8)),
     (''EE'', Seq (Lit ''EE'') (Rep digit 9 9)),
     (''GR'', Seq (Lit ''EL'') (Rep digit 9 9)),
     (''ES'', Seq (Lit ''ES'') (Seq (Cls A_Z0_9) (Seq (Rep digit 7 7) (Cls A_Z0_9)))),
     (''FI'', Seq (Lit ''FI'') (Rep digit 8 8)),
     (''FR'', Seq (Lit ''FR'') (Seq (Rep A_HJ_NP_Z0_9 2 2) (Rep digit 9 9))),
     (''HR'', Seq (Lit ''HR'') (Rep digit 11 11)),
     (''HU'', Seq (Lit ''HU'') (Rep digit 8 8)),
     (''IE'', Seq (Lit ''IE'')
        (Alt (Seq (Rep digit 7 7) (Cls A_W))
             (Seq (Cls digit) (Seq (Cls A_Z_star_plus) (Seq (Rep digit 5 5) (Cls A_W)))))),
     (''IT'', Seq (Lit ''IT'') (Rep digit 11 11)),
     (''LT'', Seq (Lit ''LT'') (Alt (Rep digit 9 9) (Rep digit 12 12))),
     (''LU'', Seq (Lit ''LU'') (Rep digit 8 8)),
     (''LV'', Seq (Lit ''LV'') (Rep digit 11 11)),
     (''MT'', Seq (Lit ''MT'') (Rep digit 8 8)),
     (''NL'', Seq (Lit ''NL'') (Seq (Rep digit 9 9) (Seq (Lit ''B'') (Rep digit 2 2)))),
     (''PL'', Seq (Lit ''PL'') (Rep digit 10 10)),
     (''PT'', Seq (Lit ''PT'') (Rep digit 9 9)),
     (''RO'', Seq (Lit ''RO'') (Rep digit 2 10)),
     (''SE'', Seq (Lit ''SE'') (Rep digit 12 12)),
     (''SI'', Seq (Lit ''SI'') (Rep digit 8 8)),
     (''SK'', Seq (Lit ''SK'') (Rep digit 10 10))]"

subsection \<open>Requests, responses and the surroundings\<close>

text \<open>
  A JSON value. \<open>property v k\<close> is the property read \<^verbatim>\<open>v.k\<close> of a parsed body (\<open>None\<close> for
  \<^verbatim>\<open>undefined\<close>; of two equal keys \<^verbatim>\<open>JSON.parse\<close> keeps the last); reading a property of
  \<^verbatim>\<open>null\<close> throws, which the callers of \<open>property\<close> check first. \<open>truthy\<close> is what
  \<^verbatim>\<open>||\<close> tests. \<open>json_object\<close> is an object literal as \<^verbatim>\<open>res.json\<close> sends it: a key
  whose value is \<^verbatim>\<open>undefined\<close> is not written. \<open>JNum\<close> holds an integer that a double holds
  exactly, as 3600 is; the other numbers of a parsed body are not modelled.
\<close>

datatype json =
    JNull
  | JBool bool
  | JNum int
  | JStr jstring
  | JArr "json list"
  | JObj "(string \<times> json) list"

fun property :: "json \<Rightarrow> string \<Rightarrow> json option" where
  "property (JObj kvs) k = map_of (rev kvs) k"
| "property _ k = None"

fun truthy :: "json option \<Rightarrow> bool" where
  "truthy None = False"
| "truthy (Some JNull) = False"
| "truthy (Some (JBool b)) = b"
| "truthy (Some (JNum n)) = (n \<noteq> 0)"
| "truthy (Some (JStr s)) = (s \<noteq> [])"
| "truthy (Some (JArr xs)) = True"
| "truthy (Some (JObj kvs)) = True"

fun json_object :: "(string \<times> json option) list \<Rightarrow> (string \<times> json) list" where
  "json_object [] = []"
| "json_object ((k, None) # kvs) = json_object kvs"
| "json_object ((k, Some v) # kvs) = (k, v) # json_object kvs"

text \<open>
  The request as the handler reads it: the method, the headers, the address of the
  connection (\<open>None\<close> when \<^verbatim>\<open>req.connection?.remoteAddress\<close> is undefined), the query
  parameters and the parsed body (\<open>None\<close> when there is none). The identifier is a string
  of the source or absent, as the interface documents it (\<^verbatim>\<open>?vatId=<string>\<close>,
  \<^verbatim>\<open>{vatId: <string>}\<close>).
\<close>

record request =
  req_method :: string
  req_headers :: "string \<rightharpoonup> string"
  remoteAddress :: "string option"
  query :: "string \<rightharpoonup> jstring"
  req_body :: "(string \<rightharpoonup> jstring) option"

record response =
  status :: nat
  res_headers :: "(string \<times> string) list"
  json_body :: "(string \<times> json) list option"

text \<open>
  The outbound call: \<^verbatim>\<open>fetch\<close> rejects (network error, timeout), or it resolves with a
  status and a body that \<^verbatim>\<open>response.json()\<close> parses (\<open>Some\<close>) or rejects (\<open>None\<close>).
\<close>

datatype fetch_result =
    Rejected
  | Resolved nat "json option"

text \<open>
  \<open>toISOString e k\<close> is what the \<open>k\<close>-th evaluation of \<^verbatim>\<open>new Date().toISOString()\<close>
  of this request returns, counted from 0. \<open>upper_mapping\<close> is the uppercase mapping of
  the runtime's Unicode tables, which \<^verbatim>\<open>toUpperCase\<close> applies.
\<close>

record env =
  date_now :: int
  math_random :: real
  fetch :: "jstring \<Rightarrow> fetch_result"
  toISOString :: "nat \<Rightarrow> jstring"
  upper_mapping :: "nat \<Rightarrow> nat list"

text \<open>The three \<^verbatim>\<open>res.setHeader\<close> calls come first, so every response carries them.\<close>

definition cors_headers :: "(string \<times> string) list" where
  "cors_headers =
    [(''Access-Control-Allow-Origin'', ''*''),
     (''Access-Control-Allow-Methods'', ''GET, POST, OPTIONS''),
     (''Access-Control-Allow-Headers'', ''Content-Type'')]"

text \<open>\<^verbatim>\<open>res.status(st).end()\<close> and \<^verbatim>\<open>res.status(st).json({...})\<close>\<close>

definition respond_end :: "nat \<Rightarrow> response" where
  "respond_end st = \<lparr>status = st, res_headers = cors_headers, json_body = None\<rparr>"

definition respond :: "nat \<Rightarrow> (string \<times> json option) list \<Rightarrow> response" where
  "respond st kvs =
     \<lparr>status = st, res_headers = cors_headers, json_body = Some (json_object kvs)\<rparr>"

subsection \<open>The client identity\<close>

text \<open>
  \<^verbatim>\<open>req.headers['x-forwarded-for']?.split(',')[0] || req.headers['x-real-ip'] ||
  req.connection?.remoteAddress || 'unknown'\<close>: \<open>orElse\<close> is \<^verbatim>\<open>||\<close> on a string that may
  be undefined; the empty string is falsy.
\<close>

definition falsy :: "string option \<Rightarrow> bool" where
  "falsy v = (case v of None \<Rightarrow> True | Some s \<Rightarrow> s = [])"

definition orElse :: "string option \<Rightarrow> string option \<Rightarrow> string option" where
  "orElse a b = (if falsy a then b else a)"

definition clientIP :: "request \<Rightarrow> string" where
  "clientIP req =
     (case orElse
             (orElse
                (orElse
                   (map_option (takeWhile (\<lambda>c. c \<noteq> CHR '','')) (req_headers req ''x-forwarded-for''))
                   (req_headers req ''x-real-ip''))
                (remoteAddress req))
             (Some ''unknown'')
      of Some ip \<Rightarrow> ip | None \<Rightarrow> ''unknown'')"

subsection \<open>The rate limiter\<close>

text \<open>
  \<^verbatim>\<open>const rateLimiter = new Map()\<close>: the entries in insertion order, one per key.
  \<^verbatim>\<open>has\<close> and \<^verbatim>\<open>get\<close> are \<open>map_of\<close>; \<^verbatim>\<open>set\<close> is \<open>AList.update\<close> (an existing key keeps its
  place, a new one goes to the end); \<^verbatim>\<open>delete\<close> is \<open>AList.delete\<close>.
\<close>

type_synonym rateLimiter = "(string \<times> int list) list"

text \<open>\<^verbatim>\<open>times.filter(time => now - time < 3600000)\<close>\<close>

definition recent :: "int \<Rightarrow> int list \<Rightarrow> int list" where
  "recent now stamps = filter (\<lambda>time. now - time < 3600000) stamps"

definition too_many :: response where
  "too_many = respond 429
     [(''error'', Some (JStr (js ''Zu viele Anfragen. Bitte versuchen Sie es sp'' @ ae @ js ''ter erneut.''))),
      (''formatValid'', Some (JBool False)),
      (''retryAfter'', Some (JNum 3600))]"

text \<open>
  Lines 29 to 41 of \<^verbatim>\<open>part_000\<close>: \<open>Inl\<close> is the early return with the 429 response,
  \<open>Inr\<close> carries the map after \<^verbatim>\<open>rateLimiter.set\<close>.
\<close>

definition rate_limit :: "int \<Rightarrow> string \<Rightarrow> rateLimiter \<Rightarrow> response + rateLimiter" where
  "rate_limit now ip rl =
     (case map_of rl ip of
        Some stamps \<Rightarrow>
          (let requests = recent now stamps in
           if length requests \<ge> 150 then Inl too_many
           else Inr (AList.update ip (requests @ [now]) rl))
      | None \<Rightarrow> Inr (AList.update ip [now] rl))"

text \<open>
  Lines 45 to 52: the loop over \<^verbatim>\<open>rateLimiter.entries()\<close>. Its body changes only the
  entry it visits (deleting it, or setting its key, which keeps the entry's place), so
  the loop visits the entries the map had when it started.
\<close>

fun sweep :: "int \<Rightarrow> (string \<times> int list) list \<Rightarrow> rateLimiter \<Rightarrow> rateLimiter" where
  "sweep now [] rl = rl"
| "sweep now ((ip, stamps) # entries) rl =
     (let recentRequests = recent now stamps in
      sweep now entries
        (if length recentRequests = 0 then AList.delete ip rl
         else AList.update ip recentRequests rl))"

text \<open>Lines 44 to 53: \<^verbatim>\<open>if (Math.random() < 0.02) { ... }\<close>\<close>

definition cleanup :: "real \<Rightarrow> int \<Rightarrow> rateLimiter \<Rightarrow> rateLimiter" where
  "cleanup rnd now rl = (if rnd < 0.02 then sweep now rl rl else rl)"

subsection \<open>The verification call\<close>

definition viesUrl :: "jstring \<Rightarrow> jstring" where
  "viesUrl clean =
     js ''https://ec.europa.eu/taxation_customs/vies/rest-api/ms/'' @ countryCode clean @
     js ''/vat/'' @ vatNumber clean"

text \<open>\<^verbatim>\<open>response.ok\<close>: the status is in the range 200 to 299.\<close>

definition response_ok :: "nat \<Rightarrow> bool" where
  "response_ok st = (200 \<le> st \<and> st \<le> 299)"

text \<open>What the \<^verbatim>\<open>try\<close> block can throw.\<close>

datatype error =
    FetchFailed
  | ViesStatus nat
  | BodyNotJson
  | TypeError

text \<open>\<^verbatim>\<open>a || b\<close> on JSON values\<close>

definition orJson :: "json option \<Rightarrow> json \<Rightarrow> json" where
  "orJson a b = (case a of None \<Rightarrow> b | Some v \<Rightarrow> if truthy a then v else b)"

text \<open>
  The \<^verbatim>\<open>try\<close> block (lines 126 to 159 of \<^verbatim>\<open>part_000\<close>, 87 to 119 of
  \<^verbatim>\<open>check-vat.js\<close>; the two differ in the log lines and in the \<^verbatim>\<open>timeout\<close> option
  handed to \<^verbatim>\<open>fetch\<close>). \<open>Inl\<close> is a thrown exception: \<^verbatim>\<open>fetch\<close> rejecting, the
  \<^verbatim>\<open>throw new Error\<close> for a status that is not ok, \<^verbatim>\<open>response.json()\<close> rejecting, and the
  read of \<^verbatim>\<open>viesData.valid\<close> when the body parsed to \<^verbatim>\<open>null\<close>.
\<close>

definition vies_try :: "env \<Rightarrow> jstring \<Rightarrow> error + response" where
  "vies_try e clean =
     (case fetch e (viesUrl clean) of
        Rejected \<Rightarrow> Inl FetchFailed
      | Resolved st parsed \<Rightarrow>
          if \<not> response_ok st then Inl (ViesStatus st)
          else
            (case parsed of
               None \<Rightarrow> Inl BodyNotJson
             | Some viesData \<Rightarrow>
                 if viesData = JNull then Inl TypeError
                 else
                   (let requestDate = property viesData ''requestDate'' in
                    Inr (respond 200
                      [(''vatId'', Some (JStr clean)),
                       (''valid'', property viesData ''valid''),
                       (''name'', Some (orJson (property viesData ''name'') (JStr []))),
                       (''address'', Some (orJson (property viesData ''address'') (JStr []))),
                       (''countryCode'', Some (JStr (countryCode clean))),
                       (''requestDate'', Some (orJson requestDate (JStr (toISOString e 0)))),
                       (''formatValid'', Some (JBool True)),
                       (''source'', Some (JStr (js ''EU VIES''))),
                       (''timestamp'',
                          Some (JStr (toISOString e (if truthy requestDate then 0 else 1))))]))))"

text \<open>The \<^verbatim>\<open>catch\<close> block (lines 161 to 174 of \<^verbatim>\<open>part_000\<close>, 121 to 134 of \<^verbatim>\<open>check-vat.js\<close>).\<close>

definition vies_catch :: "env \<Rightarrow> jstring \<Rightarrow> response" where
  "vies_catch e clean =
     respond 200
       [(''vatId'', Some (JStr clean)),
        (''valid'', Some JNull),
        (''error'', Some (JStr (js ''VIES API nicht erreichbar''))),
        (''formatValid'', Some (JBool True)),
        (''countryCode'', Some (JStr (countryCode clean))),
        (''timestamp'', Some (JStr (toISOString e 0))),
        (''message'',
           Some (JStr (js ''Format ist g'' @ ue @ js ''ltig, aber Online-Pr'' @ ue @
             js ''fung fehlgeschlagen'')))]"

subsection \<open>Format validation and what follows it\<close>

text \<open>
  The two \<^verbatim>\<open>if\<close> statements of lines 107 and 116 of \<^verbatim>\<open>part_000\<close> (68 and 77 of
  \<^verbatim>\<open>check-vat.js\<close>) leave three ways on: the prefix has no entry, the entry's pattern
  rejects the identifier, or it accepts it.
\<close>

datatype format_branch =
    UnknownCountry
  | BadFormat
  | FormatValid

definition format_check :: "(string \<times> regex) list \<Rightarrow> jstring \<Rightarrow> format_branch" where
  "format_check formats clean =
     (case lookup formats (countryCode clean) of
        None \<Rightarrow> UnknownCountry
      | Some pattern \<Rightarrow> if \<not> test pattern clean then BadFormat else FormatValid)"

text \<open>
  Lines 103 to 174 of \<^verbatim>\<open>part_000\<close> and 64 to 134 of \<^verbatim>\<open>check-vat.js\<close>, which differ in
  the table only.
\<close>

definition validate :: "(string \<times> regex) list \<Rightarrow> env \<Rightarrow> jstring \<Rightarrow> response" where
  "validate formats e clean =
     (case format_check formats clean of
        UnknownCountry \<Rightarrow>
          respond 400
            [(''vatId'', Some (JStr clean)),
             (''valid'', Some (JBool False)),
             (''error'',
                Some (JStr (js ''Unbekanntes Land oder ung'' @ ue @ js ''ltiges Format''))),
             (''formatValid'', Some (JBool False))]
      | BadFormat \<Rightarrow>
          respond 400
            [(''vatId'', Some (JStr clean)),
             (''valid'', Some (JBool False)),
             (''error'',
                Some (JStr (js ''Format entspricht nicht den Regeln f'' @ ue @ js ''r '' @
                  countryCode clean))),
             (''formatValid'', Some (JBool False))]
      | FormatValid \<Rightarrow>
          (case vies_try e clean of
             Inr r \<Rightarrow> r
           | Inl err \<Rightarrow> vies_catch e clean))"

subsection \<open>The handlers\<close>

text \<open>\<^verbatim>\<open>req.method === 'GET' ? req.query.vatId : req.body?.vatId\<close>\<close>

definition get_vatId :: "request \<Rightarrow> jstring option" where
  "get_vatId req =
     (if req_method req = ''GET'' then query req ''vatId''
      else (case req_body req of None \<Rightarrow> None | Some b \<Rightarrow> b ''vatId''))"

text \<open>The response to a missing identifier: lines 61 to 65 of \<^verbatim>\<open>part_000\<close>.\<close>

definition missing_vatId :: response where
  "missing_vatId =
     respond 400
       [(''error'', Some (JStr (js ''USt-ID ist erforderlich''))),
        (''usage'', Some (JStr (js ''GET /api/check-vat?vatId=DE123456789''))),
        (''formatValid'', Some (JBool False))]"

text \<open>The same of \<^verbatim>\<open>check-vat.js\<close>, lines 25 to 28.\<close>

definition missing_vatId_api :: response where
  "missing_vatId_api =
     respond 400
       [(''error'', Some (JStr (js ''USt-ID ist erforderlich''))),
        (''usage'', Some (JStr (js ''GET /api/check-vat?vatId=DE123456789'')))]"

text \<open>
  Lines 55 to 174 of \<^verbatim>\<open>part_000\<close>; \<^verbatim>\<open>!vatId\<close> holds of \<^verbatim>\<open>undefined\<close> and of the empty
  string.
\<close>

definition check_vat :: "env \<Rightarrow> request \<Rightarrow> response" where
  "check_vat e req =
     (case get_vatId req of
        None \<Rightarrow> missing_vatId
      | Some vatId \<Rightarrow>
          if vatId = [] then missing_vatId
          else validate vatFormats e (cleanVatId (upper_mapping e) vatId))"

text \<open>Lines 19 to 134 of \<^verbatim>\<open>check-vat.js\<close>.\<close>

definition check_vat_api :: "env \<Rightarrow> request \<Rightarrow> response" where
  "check_vat_api e req =
     (case get_vatId req of
        None \<Rightarrow> missing_vatId_api
      | Some vatId \<Rightarrow>
          if vatId = [] then missing_vatId_api
          else validate vatFormats_api e (cleanVatId (upper_mapping e) vatId))"

definition method_not_allowed :: response where
  "method_not_allowed = respond 405 [(''error'', Some (JStr (js ''Method not allowed'')))]"

text \<open>
  \<^verbatim>\<open>handler\<close> of \<^verbatim>\<open>src/unnamed/part_000\<close>. It returns the response and the
  \<^verbatim>\<open>rateLimiter\<close> map it leaves behind.
\<close>

definition handler :: "env \<Rightarrow> rateLimiter \<Rightarrow> request \<Rightarrow> response \<times> rateLimiter" where
  "handler e rl req =
     (if req_method req = ''OPTIONS'' then (respond_end 200, rl)
      else if req_method req \<noteq> ''GET'' \<and> req_method req \<noteq> ''POST'' then (method_not_allowed, rl)
      else
        (let ip = clientIP req; now = date_now e in
         case rate_limit now ip rl of
           Inl rejected \<Rightarrow> (rejected, rl)
         | Inr rl' \<Rightarrow> (check_vat e req, cleanup (math_random e) now rl')))"

text \<open>\<^verbatim>\<open>handler\<close> of \<^verbatim>\<open>src/api/check-vat.js\<close>.\<close>

definition handler_api :: "env \<Rightarrow> request \<Rightarrow> response" where
  "handler_api e req =
     (if req_method req = ''OPTIONS'' then respond_end 200
      else if req_method req \<noteq> ''GET'' \<and> req_method req \<noteq> ''POST'' then method_not_allowed
      else check_vat_api e req)"

text \<open>
  Requests served one after the other by one process: each finds the map the one before
  left. Every request comes with its own clock, random draw and upstream outcome.
\<close>

fun serve :: "rateLimiter \<Rightarrow> (env \<times> request) list \<Rightarrow> response list \<times> rateLimiter" where
  "serve rl [] = ([], rl)"
| "serve rl ((e, req) # rest) =
     (let (r, rl') = handler e rl req; (rs, rl'') = serve rl' rest in (r # rs, rl''))"

text \<open>A field of a response's JSON body.\<close>

definition body_field :: "response \<Rightarrow> string \<Rightarrow> json option" where
  "body_field r k = (case json_body r of None \<Rightarrow> None | Some kvs \<Rightarrow> map_of kvs k)"

subsection \<open>Notions the statements use\<close>

text \<open>
  The timestamp record of an identity: what \<^verbatim>\<open>rateLimiter.get\<close> holds for it, empty when
  the map has no entry.
\<close>

definition record_of :: "rateLimiter \<Rightarrow> string \<Rightarrow> int list" where
  "record_of rl ip = (case map_of rl ip of None \<Rightarrow> [] | Some stamps \<Rightarrow> stamps)"

text \<open>A request of identity \<open>c\<close> that reaches the rate limiter: its method is GET or POST.\<close>

definition from_client :: "string \<Rightarrow> request \<Rightarrow> bool" where
  "from_client c req =
     (clientIP req = c \<and> (req_method req = ''GET'' \<or> req_method req = ''POST''))"

text \<open>
  Of a run of requests and the responses to them: the responses to the requests of
  identity \<open>c\<close>, and the clock readings of those requests, both in order.
\<close>

definition answers :: "string \<Rightarrow> (env \<times> request) list \<Rightarrow> response list \<Rightarrow> response list" where
  "answers c reqs rs = map snd (filter (\<lambda>(x, r). from_client c (snd x)) (zip reqs rs))"

definition clocks :: "string \<Rightarrow> (env \<times> request) list \<Rightarrow> int list" where
  "clocks c reqs = map (\<lambda>x. date_now (fst x)) (filter (\<lambda>x. from_client c (snd x)) reqs)"

text \<open>
  The outcomes of the outbound call on which the \<^verbatim>\<open>try\<close> block throws: \<^verbatim>\<open>fetch\<close>
  rejects (network error, timeout), the status is not ok, the body is not JSON, or the
  body is \<^verbatim>\<open>null\<close>.
\<close>

fun upstream_fails :: "fetch_result \<Rightarrow> bool" where
  "upstream_fails Rejected = True"
| "upstream_fails (Resolved st parsed) =
     (\<not> response_ok st \<or> parsed = None \<or> parsed = Some JNull)"

text \<open>
  The codes of the 27 member states as the registry writes them (Greece is \<open>EL\<close>), and of
  Northern Ireland.
\<close>

definition jurisdictions :: "string list" where
  "jurisdictions =
    [''AT'', ''BE'', ''BG'', ''CY'', ''CZ'', ''DE'', ''DK'', ''EE'', ''EL'', ''ES'', ''FI'', ''FR'',
     ''HR'', ''HU'', ''IE'', ''IT'', ''LT'', ''LU'', ''LV'', ''MT'', ''NL'', ''PL'', ''PT'', ''RO'',
     ''SE'', ''SI'', ''SK'', ''XI'']"

text \<open>
  The documented shape of each jurisdiction's identifiers, stated on the local number
  (what follows the two-letter code) without regular expressions: how long it is, where
  its decimal digits stand and which letters it may carry. \<open>digits k n\<close>: \<open>n\<close> is \<open>k\<close>
  decimal digits.
\<close>

definition decimal :: "nat \<Rightarrow> bool" where
  "decimal u = (u \<in> set (js ''0123456789''))"

definition capital :: "nat \<Rightarrow> bool" where
  "capital u = (u \<in> set (js ''ABCDEFGHIJKLMNOPQRSTUVWXYZ''))"

definition digits :: "nat \<Rightarrow> jstring \<Rightarrow> bool" where
  "digits k n = (length n = k \<and> list_all decimal n)"

definition shapes :: "(string \<times> (jstring \<Rightarrow> bool)) list" where
  "shapes =
    [(''AT'', \<lambda>n. take 1 n = js ''U'' \<and> digits 8 (drop 1 n)),
     (''BE'', \<lambda>n. digits 10 n),
     (''BG'', \<lambda>n. digits 9 n \<or> digits 10 n),
     (''CY'', \<lambda>n. length n = 9 \<and> digits 8 (take 8 n) \<and> list_all capital (drop 8 n)),
     (''CZ'', \<lambda>n. digits 8 n \<or> digits 9 n \<or> digits 10 n),
     (''DE'', \<lambda>n. digits 9 n),
     (''DK'', \<lambda>n. digits 8 n),
     (''EE'', \<lambda>n. digits 9 n),
     (''EL'', \<lambda>n. digits 9 n),
     (''ES'', \<lambda>n. length n = 9 \<and> list_all (\<lambda>u. capital u \<or> decimal u) (take 1 n) \<and>
        digits 7 (take 7 (drop 1 n)) \<and> list_all (\<lambda>u. capital u \<or> decimal u) (drop 8 n)),
     (''FI'', \<lambda>n. digits 8 n),
     (''FR'', \<lambda>n. length n = 11 \<and>
        list_all (\<lambda>u. capital u \<and> u \<notin> set (js ''IO'') \<or> decimal u) (take 2 n) \<and>
        digits 9 (drop 2 n)),
     (''HR'', \<lambda>n. digits 11 n),
     (''HU'', \<lambda>n. digits 8 n),
     (''IE'', \<lambda>n. length n = 8 \<and>
        list_all (\<lambda>u. capital u \<and> u \<notin> set (js ''XYZ'')) (drop 7 n) \<and>
        (digits 7 (take 7 n) \<or>
         digits 1 (take 1 n) \<and>
         list_all (\<lambda>u. capital u \<or> u \<in> set (js ''*+'')) (take 1 (drop 1 n)) \<and>
         digits 5 (take 5 (drop 2 n)))),
     (''IT'', \<lambda>n. digits 11 n),
     (''LT'', \<lambda>n. digits 9 n \<or> digits 12 n),
     (''LU'', \<lambda>n. digits 8 n),
     (''LV'', \<lambda>n. digits 11 n),
     (''MT'', \<lambda>n. digits 8 n),
     (''NL'', \<lambda>n. length n = 12 \<and> digits 9 (take 9 n) \<and> take 1 (drop 9 n) = js ''B'' \<and>
        digits 2 (drop 10 n)),
     (''PL'', \<lambda>n. digits 10 n),
     (''PT'', \<lambda>n. digits 9 n),
     (''RO'', \<lambda>n. 2 \<le> length n \<and> length n \<le> 10 \<and> list_all decimal n),
     (''SE'', \<lambda>n. digits 12 n),
     (''SI'', \<lambda>n. digits 8 n),
     (''SK'', \<lambda>n. digits 10 n),
     (''XI'', \<lambda>n. digits 9 n)]"

text \<open>An identifier has the documented shape of the jurisdiction its first two code units name.\<close>

definition documented_shape :: "jstring \<Rightarrow> bool" where
  "documented_shape s =
     (case lookup shapes (countryCode s) of
        None \<Rightarrow> False
      | Some shape \<Rightarrow> shape (vatNumber s))"

text \<open>
  What the statement about normalization asks of the uppercase mapping, each a property
  of Unicode's table: no mapping is empty; the code points of a mapping are mapped to
  themselves; a mapping holds white space only if it is the mapping of white space; a
  surrogate is mapped to itself; the mapping of a code point that is no surrogate holds
  code points that are no surrogates.
\<close>

definition surrogate :: "nat \<Rightarrow> bool" where
  "surrogate c = (0xD800 \<le> c \<and> c \<le> 0xDFFF)"

definition case_table :: "(nat \<Rightarrow> nat list) \<Rightarrow> bool" where
  "case_table up =
     ((\<forall>c. up c \<noteq> []) \<and>
      (\<forall>c d. d \<in> set (up c) \<longrightarrow> up d = [d]) \<and>
      (\<forall>c d. d \<in> set (up c) \<longrightarrow> d \<in> set whitespace \<longrightarrow> c \<in> set whitespace) \<and>
      (\<forall>c. surrogate c \<longrightarrow> up c = [c]) \<and>
      (\<forall>c d. c < 0x110000 \<longrightarrow> \<not> surrogate c \<longrightarrow> d \<in> set (up c) \<longrightarrow>
         d < 0x110000 \<and> \<not> surrogate d))"

text \<open>
  A part of Unicode's uppercase mapping, for the examples: the letters of ASCII and of
  Latin-1 (the micro sign goes to U+039C, the sharp s to \<open>SS\<close>, the y with diaeresis to
  U+0178), the small letters of Deseret (U+10428 to U+1044F, beyond the 16 bits of a code
  unit), and every other code point to itself.
\<close>

definition sample_upper :: "nat \<Rightarrow> nat list" where
  "sample_upper c =
     (if 0x61 \<le> c \<and> c \<le> 0x7A then [c - 0x20]
      else if c = 0xB5 then [0x39C]
      else if c = 0xDF then [0x53, 0x53]
      else if 0xE0 \<le> c \<and> c \<le> 0xFE \<and> c \<noteq> 0xF7 then [c - 0x20]
      else if c = 0xFF then [0x178]
      else if 0x10428 \<le> c \<and> c \<le> 0x1044F then [c - 0x28]
      else [c])"

text \<open>
  In a sequence of code points, no high surrogate is followed by a low one (\<open>p\<close>: the
  code point before the sequence is a high surrogate).
\<close>

fun no_pair_after :: "bool \<Rightarrow> nat list \<Rightarrow> bool" where
  "no_pair_after p [] = True"
| "no_pair_after p (a # r) = (\<not> (p \<and> low_surrogate a) \<and> no_pair_after (high_surrogate a) r)"

text \<open>
  What the limiter is to answer to \<open>n\<close> requests in a row of an identity that holds \<open>k\<close>
  timestamps inside the window, none of which leaves it: \<open>False\<close> for an admitted
  request, \<open>True\<close> for a rejected one.
\<close>

definition verdicts :: "nat \<Rightarrow> nat \<Rightarrow> bool list" where
  "verdicts k n = replicate (min (150 - k) n) False @ replicate (n - (150 - k)) True"

text \<open>
  The sliding window in the specification's words, for one identity and nothing else:
  \<open>stamps\<close> are the timestamps counted so far, and a request at clock reading \<open>now\<close> is
  admitted (\<open>False\<close>) when fewer than 150 of them are less than 3600 seconds old, and
  then it is counted; otherwise it is rejected (\<open>True\<close>) and not counted. Nothing is
  ever forgotten here.
\<close>

fun sliding :: "int list \<Rightarrow> int list \<Rightarrow> bool list" where
  "sliding stamps [] = []"
| "sliding stamps (now # rest) =
     (if length (filter (\<lambda>t. now - t < 3600000) stamps) < 150
      then False # sliding (stamps @ [now]) rest
      else True # sliding stamps rest)"

text \<open>
  A clock reading inside the window of 3600 seconds that starts at \<open>t0\<close>; a timestamp
  that has left the window of every such clock reading; the timestamps of a record that
  are inside the window.
\<close>

definition in_window :: "int \<Rightarrow> int \<Rightarrow> bool" where
  "in_window t0 t = (t0 \<le> t \<and> t < t0 + 3600000)"

definition expired :: "int \<Rightarrow> int \<Rightarrow> bool" where
  "expired t0 t = (t + 3600000 \<le> t0)"

definition live :: "int \<Rightarrow> int list \<Rightarrow> int list" where
  "live t0 stamps = filter (in_window t0) stamps"

section \<open>Normalization\<close>

lemma no_pair_after_weaken: "no_pair_after p xs \<Longrightarrow> no_pair_after False xs"
  by (cases xs) auto

lemma no_pair_after_append:
  "xs \<noteq> [] \<Longrightarrow>
   no_pair_after p (xs @ ys) = (no_pair_after p xs \<and> no_pair_after (high_surrogate (last xs)) ys)"
  by (induction xs arbitrary: p) auto

lemma no_pair_after_plain:
  "\<forall>d \<in> set xs. \<not> surrogate d \<Longrightarrow> no_pair_after p xs"
  by (induction xs arbitrary: p) (auto simp: surrogate_def low_surrogate_def)

lemma code_points_Cons:
  "\<not> (high_surrogate u \<and> (case s of [] \<Rightarrow> False | l # _ \<Rightarrow> low_surrogate l)) \<Longrightarrow>
   code_points (u # s) = u # code_points s"
  by (cases s) auto

lemma code_points_no_pair:
  "(p \<longrightarrow> (case s of [] \<Rightarrow> True | u # _ \<Rightarrow> \<not> low_surrogate u)) \<Longrightarrow>
   no_pair_after p (code_points s)"
proof (induction s arbitrary: p rule: code_points.induct)
  case (1 h l r)
  then show ?case
    by (auto simp: high_surrogate_def low_surrogate_def split: list.splits)
next
  case (2 u)
  then show ?case by simp
next
  case 3
  then show ?case by simp
qed

lemma code_points_bounds:
  "\<forall>u \<in> set s. u < 0x10000 \<Longrightarrow> \<forall>c \<in> set (code_points s). c < 0x110000"
  by (induction s rule: code_points.induct)
    (auto simp: high_surrogate_def low_surrogate_def)

lemma code_points_units:
  "c \<in> set (code_points s) \<Longrightarrow> c < 0x10000 \<Longrightarrow> c \<in> set s"
  by (induction s rule: code_points.induct) (auto split: if_splits)

lemma code_points_code_units:
  assumes "no_pair_after False ys" and "\<forall>c \<in> set ys. c < 0x110000"
  shows "code_points (concat (map code_units ys)) = ys"
  using assms
proof (induction ys)
  case Nil
  then show ?case by simp
next
  case (Cons c r)
  from Cons.prems have r: "no_pair_after False r" and bound: "\<forall>c \<in> set r. c < 0x110000"
    and c: "c < 0x110000"
    by (auto dest: no_pair_after_weaken)
  note IH = Cons.IH [OF r bound]
  show ?case
  proof (cases "c < 0x10000")
    case True
    have "\<not> (high_surrogate c \<and>
        (case concat (map code_units r) of [] \<Rightarrow> False | l # _ \<Rightarrow> low_surrogate l))"
    proof (cases r)
      case Nil
      then show ?thesis by simp
    next
      case (Cons b r')
      with Cons.prems have "\<not> (high_surrogate c \<and> low_surrogate b)" and "b < 0x110000"
        by auto
      then show ?thesis
        using Cons by (auto simp: code_units_def low_surrogate_def split: list.splits if_splits)
    qed
    then have "code_points (c # concat (map code_units r)) = c # code_points (concat (map code_units r))"
      by (rule code_points_Cons)
    moreover have "concat (map code_units (c # r)) = c # concat (map code_units r)"
      using True by (simp add: code_units_def)
    ultimately show ?thesis
      using IH by simp
  next
    case False
    let ?h = "0xD800 + (c - 0x10000) div 0x400" and ?l = "0xDC00 + (c - 0x10000) mod 0x400"
    have "high_surrogate ?h" and "low_surrogate ?l"
      using False c by (auto simp: high_surrogate_def low_surrogate_def)
    moreover have "0x10000 + (?h - 0xD800) * 0x400 + (?l - 0xDC00) = c"
      using False by simp
    moreover have "concat (map code_units (c # r)) = ?h # ?l # concat (map code_units r)"
      using False by (simp add: code_units_def)
    ultimately show ?thesis
      using IH by simp
  qed
qed

lemma concat_fixed: "\<forall>d \<in> set zs. up d = [d] \<Longrightarrow> concat (map up zs) = zs"
  by (induction zs) auto

lemma upper_twice:
  assumes "\<forall>c d. d \<in> set (up c) \<longrightarrow> up d = [d]"
  shows "concat (map up (concat (map up xs))) = concat (map up xs)"
  using assms by (induction xs) (auto simp: concat_fixed)

lemma surrogate_iff: "surrogate u \<longleftrightarrow> high_surrogate u \<or> low_surrogate u"
  unfolding surrogate_def high_surrogate_def low_surrogate_def by arith

lemma case_table_nonempty: "case_table up \<Longrightarrow> up c \<noteq> []"
  unfolding case_table_def by blast

lemma case_table_fixed: "case_table up \<Longrightarrow> d \<in> set (up c) \<Longrightarrow> up d = [d]"
  unfolding case_table_def by blast

lemma case_table_whitespace:
  "case_table up \<Longrightarrow> d \<in> set (up c) \<Longrightarrow> d \<in> set whitespace \<Longrightarrow> c \<in> set whitespace"
  unfolding case_table_def by blast

lemma case_table_surrogate: "case_table up \<Longrightarrow> surrogate c \<Longrightarrow> up c = [c]"
  unfolding case_table_def by blast

lemma case_table_plain:
  "case_table up \<Longrightarrow> c < 0x110000 \<Longrightarrow> \<not> surrogate c \<Longrightarrow> d \<in> set (up c) \<Longrightarrow>
   d < 0x110000 \<and> \<not> surrogate d"
  unfolding case_table_def by blast

lemma upper_no_pair:
  assumes "case_table up" and "no_pair_after p cps" and "\<forall>c \<in> set cps. c < 0x110000"
  shows "no_pair_after p (concat (map up cps))"
  using assms(2,3)
proof (induction cps arbitrary: p)
  case Nil
  then show ?case by simp
next
  case (Cons c r)
  from Cons.prems have first: "\<not> (p \<and> low_surrogate c)" and rest: "no_pair_after (high_surrogate c) r"
    and bound: "\<forall>c \<in> set r. c < 0x110000" and c: "c < 0x110000"
    by simp_all
  note IH = Cons.IH [OF rest bound]
  show ?case
  proof (cases "surrogate c")
    case True
    with assms(1) have "up c = [c]" by (rule case_table_surrogate)
    with first IH show ?thesis by simp
  next
    case False
    have plain: "\<forall>d \<in> set (up c). \<not> surrogate d"
      using case_table_plain [OF assms(1) c False] by blast
    have nonempty: "up c \<noteq> []"
      using assms(1) by (rule case_table_nonempty)
    then have "last (up c) \<in> set (up c)" by simp
    with plain have "\<not> surrogate (last (up c))" by blast
    then have last: "\<not> high_surrogate (last (up c))"
      by (simp add: surrogate_iff)
    from False have "\<not> high_surrogate c"
      by (simp add: surrogate_iff)
    with IH have tail: "no_pair_after False (concat (map up r))" by simp
    have "no_pair_after p (up c @ concat (map up r))"
      using nonempty plain last tail
      by (simp add: no_pair_after_append no_pair_after_plain)
    then show ?thesis by simp
  qed
qed

lemma upper_bounds:
  assumes "case_table up" and "\<forall>c \<in> set cps. c < 0x110000"
  shows "\<forall>d \<in> set (concat (map up cps)). d < 0x110000"
proof
  fix d assume "d \<in> set (concat (map up cps))"
  then obtain c where c: "c \<in> set cps" and d: "d \<in> set (up c)" by auto
  from c assms(2) have bound: "c < 0x110000" by simp
  show "d < 0x110000"
  proof (cases "surrogate c")
    case True
    with assms(1) have "up c = [c]" by (rule case_table_surrogate)
    with d bound show ?thesis by simp
  next
    case False
    from case_table_plain [OF assms(1) bound False d] show ?thesis by simp
  qed
qed

lemma whitespace_units:
  assumes "u \<in> set (concat (map code_units ys))" and "u \<in> set whitespace"
    and "\<forall>c \<in> set ys. c < 0x110000"
  shows "u \<in> set ys"
proof -
  from assms(1) obtain c where c: "c \<in> set ys" and u: "u \<in> set (code_units c)" by auto
  from c assms(3) have "c < 0x110000" by simp
  from assms(2) have ws: "u < 0xD800 \<or> u = 0xFEFF"
    by (auto simp: whitespace_def)
  have "u = c"
  proof (cases "c < 0x10000")
    case True
    with u show ?thesis by (simp add: code_units_def)
  next
    case False
    with u have "u = 0xD800 + (c - 0x10000) div 0x400 \<or> u = 0xDC00 + (c - 0x10000) mod 0x400"
      by (simp add: code_units_def)
    moreover have "(c - 0x10000) div 0x400 < 0x400"
      using \<open>c < 0x110000\<close> by simp
    moreover have "(c - 0x10000) mod 0x400 < 0x400"
      by simp
    ultimately have "0xD800 \<le> u \<and> u < 0xE000"
      by linarith
    with ws show ?thesis by simp
  qed
  with c show ?thesis by simp
qed

lemma toUpperCase_keeps_stripped:
  assumes "case_table up" and "\<forall>u \<in> set s. u < 0x10000" and "\<forall>u \<in> set s. u \<notin> set whitespace"
  shows "strip_whitespace (toUpperCase up s) = toUpperCase up s"
proof -
  let ?ys = "concat (map up (code_points s))"
  have bound: "\<forall>d \<in> set ?ys. d < 0x110000"
    using assms(1,2) by (intro upper_bounds code_points_bounds)
  have "u \<notin> set whitespace" if "u \<in> set (toUpperCase up s)" for u
  proof
    assume ws: "u \<in> set whitespace"
    from that have "u \<in> set ?ys"
      using ws bound unfolding toUpperCase_def by (rule whitespace_units)
    then obtain c where c: "c \<in> set (code_points s)" and "u \<in> set (up c)" by auto
    with assms(1) ws have cws: "c \<in> set whitespace" by (blast dest: case_table_whitespace)
    then have "c < 0x10000" by (auto simp: whitespace_def)
    with c have "c \<in> set s" by (rule code_points_units)
    with assms(3) cws show False by simp
  qed
  then show ?thesis by (simp add: strip_whitespace_def)
qed

lemma toUpperCase_idem:
  assumes "case_table up" and "\<forall>u \<in> set s. u < 0x10000"
  shows "toUpperCase up (toUpperCase up s) = toUpperCase up s"
proof -
  let ?ys = "concat (map up (code_points s))"
  have cps: "\<forall>c \<in> set (code_points s). c < 0x110000"
    using assms(2) by (rule code_points_bounds)
  have "no_pair_after False (code_points s)"
    by (rule code_points_no_pair) simp
  then have pairs: "no_pair_after False ?ys"
    using assms(1) cps by (intro upper_no_pair)
  have bound: "\<forall>d \<in> set ?ys. d < 0x110000"
    using assms(1) cps by (rule upper_bounds)
  have again: "code_points (concat (map code_units ?ys)) = ?ys"
    using pairs bound by (rule code_points_code_units)
  have "concat (map up ?ys) = ?ys"
    using assms(1) by (intro upper_twice) (blast dest: case_table_fixed)
  with again show ?thesis by (simp add: toUpperCase_def)
qed

text \<open>
  C6. For every string of 16-bit code units, and whatever the uppercase mapping of the
  runtime is as long as it has the properties of Unicode's table named above:
  normalizing twice is normalizing once, and the country code followed by the local
  number is the normalized string, so the split drops no code unit.
\<close>

theorem normalize_idempotent_split:
  assumes "case_table up" and "\<forall>u \<in> set x. u < 65536"
  shows "cleanVatId up (cleanVatId up x) = cleanVatId up x \<and>
         countryCode (cleanVatId up x) @ vatNumber (cleanVatId up x) = cleanVatId up x"
proof -
  let ?s = "strip_whitespace x"
  have units: "\<forall>u \<in> set ?s. u < 0x10000" and stripped: "\<forall>u \<in> set ?s. u \<notin> set whitespace"
    using assms(2) by (simp_all add: strip_whitespace_def)
  have "strip_whitespace (toUpperCase up ?s) = toUpperCase up ?s"
    using assms(1) units stripped by (rule toUpperCase_keeps_stripped)
  moreover have "toUpperCase up (toUpperCase up ?s) = toUpperCase up ?s"
    using assms(1) units by (rule toUpperCase_idem)
  ultimately show ?thesis by (simp add: cleanVatId_def countryCode_def vatNumber_def)
qed

lemma case_table_sample: "case_table sample_upper"
  unfolding case_table_def
  by (intro conjI allI impI)
    (auto simp: sample_upper_def surrogate_def whitespace_def split: if_splits)

text \<open>
  The string \<open> de\<close>, a no-break space, \<open>e\<close> with acute, a sharp s, a small Deseret
  letter (two code units), \<open>1 2\<close>: its normal form is \<open>DE\<close>, \<open>E\<close> with acute, \<open>SS\<close>, the
  capital Deseret letter, \<open>12\<close>, and normalizing that again changes nothing.
\<close>

theorem normalize_idempotent_split_witness:
  "cleanVatId sample_upper (js '' de'' @ [0xA0, 0xE9, 0xDF, 0xD801, 0xDC28] @ js ''1 2'') =
     js ''DE'' @ [0xC9, 0x53, 0x53, 0xD801, 0xDC00] @ js ''12'' \<and>
   cleanVatId sample_upper (js ''DE'' @ [0xC9, 0x53, 0x53, 0xD801, 0xDC00] @ js ''12'') =
     js ''DE'' @ [0xC9, 0x53, 0x53, 0xD801, 0xDC00] @ js ''12''"
proof -
  let ?x = "js '' de'' @ [0xA0, 0xE9, 0xDF, 0xD801, 0xDC28] @ js ''1 2''"
  have units: "\<forall>u \<in> set ?x. u < 65536"
    by (simp add: js_def)
  have normal: "cleanVatId sample_upper ?x =
      js ''DE'' @ [0xC9, 0x53, 0x53, 0xD801, 0xDC00] @ js ''12''"
    by (simp add: js_def cleanVatId_def toUpperCase_def strip_whitespace_def whitespace_def
        sample_upper_def high_surrogate_def low_surrogate_def code_units_def)
  from normalize_idempotent_split [OF case_table_sample units] normal
  show ?thesis by simp
qed

section \<open>The rate limiter\<close>

lemma recent_idem: "recent now (recent now stamps) = recent now stamps"
  by (simp add: recent_def)

lemma recent_snoc_now: "recent now (stamps @ [now]) = recent now stamps @ [now]"
  by (simp add: recent_def)

lemma recent_window:
  assumes "in_window t0 now" and "\<forall>t \<in> set stamps. in_window t0 t"
  shows "recent now stamps = stamps"
  unfolding recent_def using assms by (auto simp: in_window_def filter_id_conv)

text \<open>
  What the loop leaves for a key: an entry it visited holds its timestamps inside the
  window, or is gone when there are none; any other key is as it was.
\<close>

lemma sweep_map_of:
  "distinct (map fst entries) \<Longrightarrow>
   map_of (sweep now entries rl) ip =
     (case map_of entries ip of
        None \<Rightarrow> map_of rl ip
      | Some stamps \<Rightarrow> if recent now stamps = [] then None else Some (recent now stamps))"
proof (induction entries arbitrary: rl)
  case Nil
  then show ?case by simp
next
  case (Cons entry entries)
  obtain k stamps where entry: "entry = (k, stamps)" by (cases entry)
  from Cons.prems entry have fresh: "map_of entries k = None" and dist: "distinct (map fst entries)"
    by (auto simp: map_of_eq_None_iff)
  show ?case
    using Cons.IH [OF dist] fresh entry
    by (auto simp: Let_def update_conv' delete_conv' split: option.splits)
qed

lemma sweep_distinct:
  "distinct (map fst rl) \<Longrightarrow> distinct (map fst (sweep now entries rl))"
  by (induction entries arbitrary: rl) (auto simp: Let_def distinct_update distinct_delete)

lemma record_of_sweep:
  "distinct (map fst rl) \<Longrightarrow> record_of (sweep now rl rl) ip = recent now (record_of rl ip)"
  by (simp add: record_of_def sweep_map_of recent_def split: option.splits)

lemma record_of_cleanup:
  "distinct (map fst rl) \<Longrightarrow>
   record_of (cleanup rnd now rl) ip =
     (if rnd < 0.02 then recent now (record_of rl ip) else record_of rl ip)"
  by (simp add: cleanup_def record_of_sweep)

lemma cleanup_distinct:
  "distinct (map fst rl) \<Longrightarrow> distinct (map fst (cleanup rnd now rl))"
  by (simp add: cleanup_def sweep_distinct)

text \<open>
  C5. In a map with one entry per key, the sweep keeps every identity that has a timestamp
  inside the window, with exactly its timestamps inside the window; an identity is gone
  after it only if none of its timestamps is inside the window. The same holds of the
  cleanup step whatever the random draw.
\<close>

theorem sweep_keeps_active:
  assumes "distinct (map fst rl)" and "map_of rl ip = Some stamps"
  shows "((\<exists>t \<in> set stamps. now - t < 3600000) \<longrightarrow>
            map_of (sweep now rl rl) ip = Some (recent now stamps) \<and>
            map_of (cleanup rnd now rl) ip \<noteq> None) \<and>
         (map_of (sweep now rl rl) ip = None \<longleftrightarrow> recent now stamps = []) \<and>
         (map_of (cleanup rnd now rl) ip = None \<longrightarrow> recent now stamps = [])"
proof -
  have swept: "map_of (sweep now rl rl) ip =
      (if recent now stamps = [] then None else Some (recent now stamps))"
    using assms by (simp add: sweep_map_of)
  have active: "recent now stamps \<noteq> []" if "\<exists>t \<in> set stamps. now - t < 3600000"
    using that by (auto simp: recent_def filter_empty_conv)
  show ?thesis
    using swept active assms(2) by (auto simp: cleanup_def)
qed

text \<open>
  At 3600000 ms, with \<open>a\<close> last seen at 1000 ms and \<open>b\<close> at 0 ms: the sweep keeps \<open>a\<close>
  with the one timestamp still inside the window.
\<close>

theorem sweep_keeps_active_witness:
  "map_of (sweep 3600000 [(''a'', [0, 1000]), (''b'', [0])] [(''a'', [0, 1000]), (''b'', [0])]) ''a''
     = Some [1000] \<and>
   map_of (cleanup (1 / 100) 3600000 [(''a'', [0, 1000]), (''b'', [0])]) ''a'' \<noteq> None"
proof -
  have keys: "distinct (map fst [(''a'', [0, 1000 :: int]), (''b'', [0])])"
    by simp
  have entry: "map_of [(''a'', [0, 1000 :: int]), (''b'', [0])] ''a'' = Some [0, 1000]"
    by simp
  have inside: "\<exists>t \<in> set [0, 1000 :: int]. 3600000 - t < 3600000"
    by simp
  show ?thesis
    using sweep_keeps_active [OF keys entry, of 3600000 "1 / 100"] inside
    by (simp add: recent_def)
qed

subsection \<open>One request\<close>

lemma status_respond: "status (respond st kvs) = st"
  by (simp add: respond_def)

lemma status_validate: "status (validate formats e clean) \<noteq> 429"
  by (auto simp: validate_def vies_try_def vies_catch_def status_respond Let_def
      split: format_branch.splits sum.splits fetch_result.splits option.splits if_splits)

lemma status_check_vat: "status (check_vat e req) \<noteq> 429"
  by (simp add: check_vat_def missing_vatId_def status_respond status_validate
      split: option.splits)

lemma status_too_many: "status too_many = 429"
  by (simp add: too_many_def status_respond)

lemma handler_cases:
  assumes "req_method req = ''GET'' \<or> req_method req = ''POST''"
  shows "handler e rl req =
     (case rate_limit (date_now e) (clientIP req) rl of
        Inl rejected \<Rightarrow> (rejected, rl)
      | Inr rl' \<Rightarrow> (check_vat e req, cleanup (math_random e) (date_now e) rl'))"
  using assms by (auto simp: handler_def Let_def)

lemma handler_other_method:
  assumes "\<not> (req_method req = ''GET'' \<or> req_method req = ''POST'')"
  shows "snd (handler e rl req) = rl"
  using assms by (auto simp: handler_def)

lemma rate_limit_Inl:
  "rate_limit now ip rl = Inl r \<longleftrightarrow> r = too_many \<and> 150 \<le> length (recent now (record_of rl ip))"
  by (auto simp: rate_limit_def record_of_def Let_def recent_def split: option.splits)

lemma rate_limit_Inr:
  "rate_limit now ip rl = Inr rl' \<longleftrightarrow>
     rl' = AList.update ip (recent now (record_of rl ip) @ [now]) rl \<and>
     length (recent now (record_of rl ip)) < 150"
  by (auto simp: rate_limit_def record_of_def Let_def recent_def split: option.splits)

lemma record_of_update:
  "record_of (AList.update k v rl) ip = (if ip = k then v else record_of rl ip)"
  by (simp add: record_of_def update_conv')

text \<open>
  C9. The timestamp is stored before the identifier is read: after a GET or POST request
  that the limiter admits (the response is not the 429 one, whatever else it is), the
  record of the client identity is its timestamps inside the window followed by the
  clock reading of this request, so the record inside the window has grown by one. This
  covers the requests that end with a 400 for a missing identifier, an unknown country or
  a bad format.
\<close>

theorem admitted_request_is_counted:
  assumes "distinct (map fst rl)"
    and "req_method req = ''GET'' \<or> req_method req = ''POST''"
    and "handler e rl req = (r, rl')"
    and "status r \<noteq> 429"
  shows "map_of rl' (clientIP req) =
           Some (recent (date_now e) (record_of rl (clientIP req)) @ [date_now e]) \<and>
         length (recent (date_now e) (record_of rl' (clientIP req))) =
           length (recent (date_now e) (record_of rl (clientIP req))) + 1"
proof -
  let ?now = "date_now e" and ?ip = "clientIP req"
  let ?new = "recent ?now (record_of rl ?ip) @ [?now]"
  from assms(2,3,4) obtain rl1 where
    admitted: "rate_limit ?now ?ip rl = Inr rl1" and
    rl': "rl' = cleanup (math_random e) ?now rl1"
    by (auto simp: handler_cases rate_limit_Inl status_too_many split: sum.splits)
  from admitted have rl1: "rl1 = AList.update ?ip ?new rl"
    by (simp add: rate_limit_Inr)
  have dist1: "distinct (map fst rl1)"
    using assms(1) rl1 by (simp add: distinct_update)
  have rec1: "map_of rl1 ?ip = Some ?new"
    using rl1 by (simp add: update_conv')
  have keep: "recent ?now ?new = ?new"
    by (simp add: recent_snoc_now recent_idem)
  have "map_of rl' ?ip = Some ?new"
    using rl' dist1 rec1 keep by (simp add: cleanup_def sweep_map_of)
  then show ?thesis
    using keep by (simp add: record_of_def)
qed

text \<open>
  A GET request without identifier, at 1000 ms, of an identity seen at 0 ms: the response
  is the 400 for the missing identifier, and the record holds both timestamps.
\<close>

theorem admitted_request_is_counted_witness:
  "status (fst (handler
     \<lparr>date_now = 1000, math_random = 1 / 100, fetch = (\<lambda>url. Rejected), toISOString = (\<lambda>k. js ''T''),
      upper_mapping = sample_upper\<rparr>
     [(''unknown'', [0])]
     \<lparr>req_method = ''GET'', req_headers = Map.empty, remoteAddress = None,
      query = Map.empty, req_body = None\<rparr>)) = 400 \<and>
   map_of (snd (handler
     \<lparr>date_now = 1000, math_random = 1 / 100, fetch = (\<lambda>url. Rejected), toISOString = (\<lambda>k. js ''T''),
      upper_mapping = sample_upper\<rparr>
     [(''unknown'', [0])]
     \<lparr>req_method = ''GET'', req_headers = Map.empty, remoteAddress = None,
      query = Map.empty, req_body = None\<rparr>)) ''unknown'' = Some [0, 1000]"
proof -
  define e where "e =
    \<lparr>date_now = 1000, math_random = 1 / 100, fetch = (\<lambda>url :: jstring. Rejected),
     toISOString = (\<lambda>k :: nat. js ''T''), upper_mapping = sample_upper\<rparr>"
  define req where "req =
    \<lparr>req_method = ''GET'', req_headers = Map.empty, remoteAddress = None,
     query = Map.empty, req_body = None\<rparr>"
  define rl :: rateLimiter where "rl = [(''unknown'', [0])]"
  have keys: "distinct (map fst rl)"
    by (simp add: rl_def)
  have m: "req_method req = ''GET'' \<or> req_method req = ''POST''"
    by (simp add: req_def)
  have ip: "clientIP req = ''unknown''"
    by (simp add: clientIP_def orElse_def falsy_def req_def)
  have adm: "rate_limit (date_now e) (clientIP req) rl = Inr [(''unknown'', [0, 1000])]"
    by (simp add: ip rate_limit_def recent_def rl_def e_def)
  have r: "fst (handler e rl req) = missing_vatId"
    using adm m by (simp add: handler_cases check_vat_def get_vatId_def req_def)
  have st: "status (fst (handler e rl req)) \<noteq> 429"
    by (simp add: r missing_vatId_def respond_def)
  have run: "handler e rl req = (fst (handler e rl req), snd (handler e rl req))"
    by simp
  from admitted_request_is_counted [OF keys m run st]
  have "map_of (snd (handler e rl req)) ''unknown'' = Some [0, 1000]"
    by (simp add: ip record_of_def rl_def e_def recent_def)
  moreover have "status (fst (handler e rl req)) = 400"
    by (simp add: r missing_vatId_def respond_def)
  ultimately show ?thesis by (simp add: e_def req_def rl_def)
qed

lemma recent_later: "now \<le> n \<Longrightarrow> recent n (recent now stamps) = recent n stamps"
  unfolding recent_def filter_filter by (rule filter_cong) auto

text \<open>
  One request, whatever the map holds. A request of identity \<open>c\<close> is admitted when fewer
  than 150 of its timestamps are less than 3600 seconds old, and then the record is those
  timestamps followed by the clock reading; otherwise it is rejected without a trace. A
  request of another identity leaves the record of \<open>c\<close> as it is, or drops the
  timestamps that are 3600 seconds old.
\<close>

lemma handler_turn:
  assumes dist: "distinct (map fst rl)" and run: "handler e rl req = (r, rl')"
  shows "distinct (map fst rl') \<and>
         (if from_client c req
          then (if length (recent (date_now e) (record_of rl c)) < 150
                then status r \<noteq> 429 \<and>
                     record_of rl' c = recent (date_now e) (record_of rl c) @ [date_now e]
                else r = too_many \<and> rl' = rl)
          else record_of rl' c = record_of rl c \<or>
               record_of rl' c = recent (date_now e) (record_of rl c))"
proof (cases "req_method req = ''GET'' \<or> req_method req = ''POST''")
  case False
  then have "rl' = rl"
    using run handler_other_method [of req e rl] by simp
  then show ?thesis
    using dist False by (simp add: from_client_def)
next
  case True
  let ?now = "date_now e" and ?ip = "clientIP req"
  show ?thesis
  proof (cases "rate_limit ?now ?ip rl")
    case (Inl rejected)
    have "handler e rl req = (rejected, rl)"
      using True Inl by (simp add: handler_cases)
    with run Inl have r: "r = too_many" and rl': "rl' = rl" and
      full: "150 \<le> length (recent ?now (record_of rl ?ip))"
      by (simp_all add: rate_limit_Inl)
    show ?thesis
      using dist r rl' full by (auto simp: from_client_def)
  next
    case (Inr rl1)
    have "handler e rl req = (check_vat e req, cleanup (math_random e) ?now rl1)"
      using True Inr by (simp add: handler_cases)
    with run have r: "r = check_vat e req" and rl': "rl' = cleanup (math_random e) ?now rl1"
      by simp_all
    from Inr have rl1: "rl1 = AList.update ?ip (recent ?now (record_of rl ?ip) @ [?now]) rl"
      and room: "length (recent ?now (record_of rl ?ip)) < 150"
      by (simp_all add: rate_limit_Inr)
    have dist1: "distinct (map fst rl1)"
      using dist rl1 by (simp add: distinct_update)
    have rec1: "record_of rl1 c =
        (if c = ?ip then recent ?now (record_of rl c) @ [?now] else record_of rl c)"
      using rl1 by (auto simp: record_of_update)
    have rec': "record_of rl' c = record_of rl1 c \<or> record_of rl' c = recent ?now (record_of rl1 c)"
      using rl' dist1 by (simp add: record_of_cleanup)
    have dist': "distinct (map fst rl')"
      using rl' dist1 by (simp add: cleanup_distinct)
    show ?thesis
    proof (cases "from_client c req")
      case False
      with True have "c \<noteq> ?ip" by (auto simp: from_client_def)
      with rec' rec1 dist' False show ?thesis by auto
    next
      case client: True
      then have c: "c = ?ip" by (simp add: from_client_def)
      from c rec' rec1 have "record_of rl' c = recent ?now (record_of rl c) @ [?now]"
        by (auto simp: recent_snoc_now recent_idem)
      with dist' client room c r show ?thesis
        by (simp add: status_check_vat)
    qed
  qed
qed

lemma recent_live:
  assumes "in_window t0 now" and "\<forall>t \<in> set stamps. expired t0 t \<or> in_window t0 t"
  shows "recent now stamps = live t0 stamps"
  unfolding recent_def live_def
proof (rule filter_cong [OF refl])
  fix t assume "t \<in> set stamps"
  with assms show "(now - t < 3600000) = in_window t0 t"
    by (auto simp: in_window_def expired_def)
qed

lemma live_idem: "live t0 (live t0 stamps) = live t0 stamps"
  by (simp add: live_def)

lemma live_snoc: "in_window t0 now \<Longrightarrow> live t0 (stamps @ [now]) = live t0 stamps @ [now]"
  by (simp add: live_def)

lemma live_in_window: "\<forall>t \<in> set (live t0 stamps). in_window t0 t"
  by (simp add: live_def)

lemma live_all: "\<forall>t \<in> set stamps. in_window t0 t \<Longrightarrow> live t0 stamps = stamps"
  by (simp add: live_def filter_id_conv)

text \<open>
  One request at a clock reading inside the window that starts at \<open>t0\<close>, when every
  timestamp of identity \<open>c\<close> is inside that window or has left it for good. A request of
  \<open>c\<close> is admitted while fewer than 150 of its timestamps are inside the window, and
  then the record is those timestamps followed by the clock reading; otherwise it is
  rejected without a trace. A request of another identity does not change which
  timestamps of \<open>c\<close> are inside the window.
\<close>

lemma handler_step:
  assumes dist: "distinct (map fst rl)"
    and now: "in_window t0 (date_now e)"
    and inv: "\<forall>t \<in> set (record_of rl c). expired t0 t \<or> in_window t0 t"
    and run: "handler e rl req = (r, rl')"
  shows "distinct (map fst rl') \<and>
         (\<forall>t \<in> set (record_of rl' c). expired t0 t \<or> in_window t0 t) \<and>
         ((\<forall>t \<in> set (record_of rl c). in_window t0 t) \<longrightarrow>
            (\<forall>t \<in> set (record_of rl' c). in_window t0 t)) \<and>
         (if from_client c req
          then (if length (live t0 (record_of rl c)) < 150
                then status r \<noteq> 429 \<and>
                     record_of rl' c = live t0 (record_of rl c) @ [date_now e]
                else r = too_many \<and> rl' = rl)
          else live t0 (record_of rl' c) = live t0 (record_of rl c))"
proof (cases "req_method req = ''GET'' \<or> req_method req = ''POST''")
  case False
  then have "rl' = rl"
    using run handler_other_method [of req e rl] by simp
  then show ?thesis
    using dist inv False by (simp add: from_client_def)
next
  case True
  let ?now = "date_now e" and ?ip = "clientIP req"
  have same: "recent ?now (record_of rl c) = live t0 (record_of rl c)"
    using now inv by (rule recent_live)
  show ?thesis
  proof (cases "rate_limit ?now ?ip rl")
    case (Inl rejected)
    have "handler e rl req = (rejected, rl)"
      using True Inl by (simp add: handler_cases)
    with run Inl have r: "r = too_many" and rl': "rl' = rl" and
      full: "150 \<le> length (recent ?now (record_of rl ?ip))"
      by (simp_all add: rate_limit_Inl)
    show ?thesis
      using dist inv r rl' full same by (auto simp: from_client_def)
  next
    case (Inr rl1)
    have "handler e rl req = (check_vat e req, cleanup (math_random e) ?now rl1)"
      using True Inr by (simp add: handler_cases)
    with run have r: "r = check_vat e req" and rl': "rl' = cleanup (math_random e) ?now rl1"
      by simp_all
    from Inr have rl1: "rl1 = AList.update ?ip (recent ?now (record_of rl ?ip) @ [?now]) rl"
      and room: "length (recent ?now (record_of rl ?ip)) < 150"
      by (simp_all add: rate_limit_Inr)
    have dist1: "distinct (map fst rl1)"
      using dist rl1 by (simp add: distinct_update)
    have rec1: "record_of rl1 c =
        (if c = ?ip then live t0 (record_of rl c) @ [?now] else record_of rl c)"
      using rl1 same by (auto simp: record_of_update)
    have inv1: "\<forall>t \<in> set (record_of rl1 c). expired t0 t \<or> in_window t0 t"
      using rec1 inv now live_in_window [of t0 "record_of rl c"] by auto
    have swept: "recent ?now (record_of rl1 c) = live t0 (record_of rl1 c)"
      using now inv1 by (rule recent_live)
    have rec': "record_of rl' c = record_of rl1 c \<or> record_of rl' c = live t0 (record_of rl1 c)"
      using rl' dist1 swept by (simp add: record_of_cleanup)
    have live1: "live t0 (record_of rl1 c) =
        (if c = ?ip then live t0 (record_of rl c) @ [?now] else live t0 (record_of rl c))"
      using rec1 now by (simp add: live_snoc live_idem)
    have dist': "distinct (map fst rl')"
      using rl' dist1 by (simp add: cleanup_distinct)
    have inv': "\<forall>t \<in> set (record_of rl' c). expired t0 t \<or> in_window t0 t"
      using rec' inv1 live_in_window [of t0 "record_of rl1 c"] by auto
    have window': "\<forall>t \<in> set (record_of rl' c). in_window t0 t"
      if "\<forall>t \<in> set (record_of rl c). in_window t0 t"
      using rec' rec1 that now by (auto simp: live_def split: if_splits)
    show ?thesis
    proof (cases "from_client c req")
      case False
      with True have "c \<noteq> ?ip" by (auto simp: from_client_def)
      with rec' live1 have "live t0 (record_of rl' c) = live t0 (record_of rl c)"
        by (auto simp: live_idem)
      with dist' inv' window' False show ?thesis by simp
    next
      case client: True
      then have c: "c = ?ip" by (simp add: from_client_def)
      with room same have less: "length (live t0 (record_of rl c)) < 150" by simp
      from c rec' rec1 live1 have "record_of rl' c = live t0 (record_of rl c) @ [?now]"
        by auto
      with dist' inv' window' client less r show ?thesis
        by (simp add: status_check_vat)
    qed
  qed
qed

subsection \<open>A run of requests\<close>

lemma serve_Cons:
  "serve rl ((e, req) # rest) =
     (fst (handler e rl req) # fst (serve (snd (handler e rl req)) rest),
      snd (serve (snd (handler e rl req)) rest))"
  by (simp add: split_beta)

lemma length_serve: "length (fst (serve rl reqs)) = length reqs"
  by (induction reqs arbitrary: rl) (auto simp: split_beta)

text \<open>
  The map starts empty, and every request leaves it with one entry per key: the states
  the process reaches are the ones the statements of this section are about.
\<close>

lemma handler_distinct:
  assumes "distinct (map fst rl)"
  shows "distinct (map fst (snd (handler e rl req)))"
proof (cases "req_method req = ''GET'' \<or> req_method req = ''POST''")
  case False
  with assms show ?thesis by (simp add: handler_other_method)
next
  case True
  show ?thesis
  proof (cases "rate_limit (date_now e) (clientIP req) rl")
    case (Inl rejected)
    with True assms show ?thesis by (simp add: handler_cases)
  next
    case (Inr rl1)
    then have "distinct (map fst rl1)"
      using assms by (simp add: rate_limit_Inr distinct_update)
    with True Inr show ?thesis by (simp add: handler_cases cleanup_distinct)
  qed
qed

lemma serve_distinct:
  "distinct (map fst rl) \<Longrightarrow> distinct (map fst (snd (serve rl reqs)))"
proof (induction reqs arbitrary: rl)
  case Nil
  then show ?case by simp
next
  case (Cons x reqs)
  obtain e req where x: "x = (e, req)" by (cases x)
  from Cons.prems have "distinct (map fst (snd (handler e rl req)))"
    by (rule handler_distinct)
  then have "distinct (map fst (snd (serve (snd (handler e rl req)) reqs)))"
    by (rule Cons.IH)
  then show ?case by (simp add: x split_beta)
qed

lemma answers_Cons:
  "answers c ((e, req) # reqs) (r # rs) =
     (if from_client c req then r # answers c reqs rs else answers c reqs rs)"
  by (simp add: answers_def)

lemma clocks_Cons:
  "clocks c ((e, req) # reqs) =
     (if from_client c req then date_now e # clocks c reqs else clocks c reqs)"
  by (simp add: clocks_def)

lemma answers_all:
  "\<forall>x \<in> set reqs. from_client c (snd x) \<Longrightarrow> length rs = length reqs \<Longrightarrow> answers c reqs rs = rs"
proof (induction reqs arbitrary: rs)
  case Nil
  then show ?case by (simp add: answers_def)
next
  case (Cons x reqs)
  then obtain r rs' where "rs = r # rs'" by (cases rs) auto
  with Cons show ?case by (cases x) (simp add: answers_Cons)
qed

lemma verdicts_admit: "k < 150 \<Longrightarrow> verdicts k (Suc n) = False # verdicts (Suc k) n"
proof -
  assume "k < 150"
  then obtain d where d: "150 - k = Suc d" by (cases "150 - k") auto
  then have "150 - Suc k = d" by simp
  with d show ?thesis by (simp add: verdicts_def)
qed

lemma verdicts_reject: "\<not> k < 150 \<Longrightarrow> verdicts k (Suc n) = True # verdicts k n"
  by (simp add: verdicts_def)

lemma take_admit: "k < (150::nat) \<Longrightarrow> take (150 - k) (x # xs) = x # take (150 - Suc k) xs"
proof -
  assume "k < 150"
  then have "150 - k = Suc (150 - Suc k)" by arith
  then show ?thesis by (simp only: take_Suc_Cons)
qed

lemma serve_window:
  assumes "distinct (map fst rl)"
    and "\<forall>t \<in> set (record_of rl c). in_window t0 t"
    and "\<forall>x \<in> set reqs. in_window t0 (date_now (fst x))"
  shows "\<forall>t \<in> set (record_of (snd (serve rl reqs)) c). in_window t0 t"
  using assms
proof (induction reqs arbitrary: rl)
  case Nil
  then show ?case by simp
next
  case (Cons x reqs)
  obtain e req where x: "x = (e, req)" by (cases x)
  obtain r rl1 where run: "handler e rl req = (r, rl1)" by (cases "handler e rl req")
  from Cons.prems x have now: "in_window t0 (date_now e)"
    and later: "\<forall>x \<in> set reqs. in_window t0 (date_now (fst x))"
    by simp_all
  from Cons.prems(2) have inv: "\<forall>t \<in> set (record_of rl c). expired t0 t \<or> in_window t0 t"
    by simp
  from handler_step [OF Cons.prems(1) now inv run] Cons.prems(2)
  have "distinct (map fst rl1)" and "\<forall>t \<in> set (record_of rl1 c). in_window t0 t"
    by simp_all
  then have "\<forall>t \<in> set (record_of (snd (serve rl1 reqs)) c). in_window t0 t"
    using later by (rule Cons.IH)
  then show ?case
    using run by (simp add: x split_beta)
qed

text \<open>
  A run of requests whose clock readings lie in one window, for an identity that has
  \<open>k\<close> timestamps inside the window and otherwise only timestamps that have left it.
\<close>

lemma serve_run:
  assumes "distinct (map fst rl)"
    and "\<forall>t \<in> set (record_of rl c). expired t0 t \<or> in_window t0 t"
    and "\<forall>x \<in> set reqs. in_window t0 (date_now (fst x))"
  shows "map (\<lambda>r. status r = 429) (answers c reqs (fst (serve rl reqs))) =
           verdicts (length (live t0 (record_of rl c))) (length (clocks c reqs)) \<and>
         (\<forall>r \<in> set (answers c reqs (fst (serve rl reqs))). status r = 429 \<longrightarrow> r = too_many) \<and>
         live t0 (record_of (snd (serve rl reqs)) c) =
           live t0 (record_of rl c) @
             take (150 - length (live t0 (record_of rl c))) (clocks c reqs) \<and>
         (\<forall>t \<in> set (record_of (snd (serve rl reqs)) c). expired t0 t \<or> in_window t0 t) \<and>
         (length (live t0 (record_of rl c)) < 150 \<and> clocks c reqs \<noteq> [] \<longrightarrow>
            (\<forall>t \<in> set (record_of (snd (serve rl reqs)) c). in_window t0 t))"
  using assms
proof (induction reqs arbitrary: rl)
  case Nil
  then show ?case by (simp add: answers_def clocks_def verdicts_def)
next
  case (Cons x reqs)
  obtain e req where x: "x = (e, req)" by (cases x)
  obtain r rl1 where run: "handler e rl req = (r, rl1)" by (cases "handler e rl req")
  from Cons.prems x have now: "in_window t0 (date_now e)"
    and later: "\<forall>x \<in> set reqs. in_window t0 (date_now (fst x))"
    by simp_all
  note step = handler_step [OF Cons.prems(1) now Cons.prems(2) run]
  from step have dist1: "distinct (map fst rl1)"
    and inv1: "\<forall>t \<in> set (record_of rl1 c). expired t0 t \<or> in_window t0 t"
    by simp_all
  note IH = Cons.IH [OF dist1 inv1 later]
  have unfold: "serve rl ((e, req) # reqs) = (r # fst (serve rl1 reqs), snd (serve rl1 reqs))"
    using run by (simp add: split_beta)
  show ?case
  proof (cases "from_client c req")
    case False
    with step have "live t0 (record_of rl1 c) = live t0 (record_of rl c)" by simp
    with IH False show ?thesis
      unfolding x by (simp add: unfold answers_Cons clocks_Cons del: serve.simps)
  next
    case True
    show ?thesis
    proof (cases "length (live t0 (record_of rl c)) < 150")
      case room: True
      with step True have ok: "status r \<noteq> 429"
        and rec1: "record_of rl1 c = live t0 (record_of rl c) @ [date_now e]"
        by simp_all
      have live1: "live t0 (record_of rl1 c) = live t0 (record_of rl c) @ [date_now e]"
        using rec1 now by (simp add: live_snoc live_idem)
      have "\<forall>t \<in> set (record_of rl1 c). in_window t0 t"
        using rec1 now live_in_window [of t0 "record_of rl c"] by auto
      with dist1 have window: "\<forall>t \<in> set (record_of (snd (serve rl1 reqs)) c). in_window t0 t"
        using later by (rule serve_window)
      from IH ok live1 True room window show ?thesis
        unfolding x
        by (simp add: unfold answers_Cons clocks_Cons verdicts_admit take_admit del: serve.simps)
    next
      case full: False
      with step True have r: "r = too_many" and rl1: "rl1 = rl"
        by simp_all
      from IH r rl1 True full show ?thesis
        unfolding x
        by (simp add: unfold answers_Cons clocks_Cons verdicts_reject status_too_many
            del: serve.simps)
    qed
  qed
qed

text \<open>
  A run of requests whose clock never goes back: the limiter answers the requests of an
  identity as the sliding window asks, from any list of timestamps that holds the same
  timestamps less than 3600 seconds old as the record does, now and later.
\<close>

lemma serve_sliding:
  assumes "distinct (map fst rl)"
    and "sorted (map (\<lambda>x. date_now (fst x)) reqs)"
    and "\<forall>x \<in> set reqs. m \<le> date_now (fst x)"
    and "\<forall>n \<ge> m. recent n (record_of rl c) = recent n stamps"
  shows "map (\<lambda>r. status r = 429) (answers c reqs (fst (serve rl reqs))) =
           sliding stamps (clocks c reqs)"
  using assms
proof (induction reqs arbitrary: rl stamps m)
  case Nil
  then show ?case by (simp add: answers_def clocks_def)
next
  case (Cons x reqs)
  obtain e req where x: "x = (e, req)" by (cases x)
  obtain r rl1 where run: "handler e rl req = (r, rl1)" by (cases "handler e rl req")
  let ?now = "date_now e"
  from Cons.prems x have now: "m \<le> ?now"
    and later: "\<forall>x \<in> set reqs. ?now \<le> date_now (fst x)"
    and sorted: "sorted (map (\<lambda>x. date_now (fst x)) reqs)"
    by simp_all
  from Cons.prems(4) now have same: "recent ?now (record_of rl c) = recent ?now stamps"
    by simp
  have keep: "recent n (recent ?now (record_of rl c)) = recent n stamps" if "?now \<le> n" for n
    using that now Cons.prems(4) by (simp add: recent_later)
  note turn = handler_turn [OF Cons.prems(1) run, of c]
  from turn have dist1: "distinct (map fst rl1)" by simp
  have unfold: "serve rl ((e, req) # reqs) = (r # fst (serve rl1 reqs), snd (serve rl1 reqs))"
    using run by (simp add: split_beta)
  show ?case
  proof (cases "from_client c req")
    case False
    with turn have "record_of rl1 c = record_of rl c \<or>
        record_of rl1 c = recent ?now (record_of rl c)"
      by simp
    then have "\<forall>n \<ge> ?now. recent n (record_of rl1 c) = recent n stamps"
      using keep now Cons.prems(4) by auto
    from Cons.IH [OF dist1 sorted later this] False show ?thesis
      unfolding x by (simp add: unfold answers_Cons clocks_Cons del: serve.simps)
  next
    case True
    show ?thesis
    proof (cases "length (recent ?now (record_of rl c)) < 150")
      case room: True
      with turn True have ok: "status r \<noteq> 429"
        and rec1: "record_of rl1 c = recent ?now (record_of rl c) @ [?now]"
        by simp_all
      have "\<forall>n \<ge> ?now. recent n (record_of rl1 c) = recent n (stamps @ [?now])"
        using keep rec1 by (simp add: recent_def)
      from Cons.IH [OF dist1 sorted later this] ok True room same show ?thesis
        unfolding x
        by (simp add: unfold answers_Cons clocks_Cons recent_def del: serve.simps)
    next
      case full: False
      with turn True have r: "r = too_many" and rl1: "rl1 = rl"
        by simp_all
      have "\<forall>n \<ge> ?now. recent n (record_of rl1 c) = recent n stamps"
        using rl1 now Cons.prems(4) by simp
      from Cons.IH [OF dist1 sorted later this] r True full same show ?thesis
        unfolding x
        by (simp add: unfold answers_Cons clocks_Cons recent_def status_too_many
            del: serve.simps)
    qed
  qed
qed

lemma length_answers:
  "length (answers c reqs (fst (serve rl reqs))) = length (clocks c reqs)"
proof -
  have "length (zip reqs (fst (serve rl reqs))) = length reqs"
    by (simp add: length_serve)
  have "map fst (filter (\<lambda>(x, r). from_client c (snd x)) (zip reqs rs)) =
        filter (\<lambda>x. from_client c (snd x)) reqs" if "length rs = length reqs" for rs :: "response list"
    using that [symmetric] by (induction reqs rs rule: list_induct2) auto
  from this [of "fst (serve rl reqs)"] have
    "length (filter (\<lambda>(x, r). from_client c (snd x)) (zip reqs (fst (serve rl reqs)))) =
     length (filter (\<lambda>x. from_client c (snd x)) reqs)"
    by (metis length_map length_serve)
  then show ?thesis by (simp add: answers_def clocks_def)
qed

lemma status_429_unchanged: "status (fst (handler e rl req)) = 429 \<Longrightarrow> handler e rl req = (too_many, rl)"
  by (auto simp: handler_def Let_def respond_end_def method_not_allowed_def status_respond
      status_check_vat rate_limit_Inl split: sum.splits)

lemma retryAfter_too_many: "body_field too_many ''retryAfter'' = Some (JNum 3600)"
  by (simp add: too_many_def respond_def body_field_def)

lemma serve_too_many:
  "r \<in> set (fst (serve rl reqs)) \<Longrightarrow> status r = 429 \<Longrightarrow> r = too_many"
proof (induction reqs arbitrary: rl)
  case Nil
  then show ?case by simp
next
  case (Cons x reqs)
  obtain e req where x: "x = (e, req)" by (cases x)
  obtain r1 rl1 where run: "handler e rl req = (r1, rl1)" by (cases "handler e rl req")
  from Cons.prems(1) have "r = r1 \<or> r \<in> set (fst (serve rl1 reqs))"
    using run by (simp add: x split_beta)
  then show ?case
  proof
    assume "r = r1"
    with run Cons.prems(2) have "status (fst (handler e rl req)) = 429" by simp
    then have "handler e rl req = (too_many, rl)" by (rule status_429_unchanged)
    with run \<open>r = r1\<close> show ?thesis by simp
  next
    assume "r \<in> set (fst (serve rl1 reqs))"
    then show ?thesis using Cons.prems(2) by (rule Cons.IH)
  qed
qed

lemma answers_subset: "set (answers c reqs rs) \<subseteq> set rs"
  by (auto simp: answers_def dest: set_zip_rightD)

text \<open>
  C1. Take an identity \<open>c\<close>, a map with one entry for each key, and any run of requests
  (of \<open>c\<close> and of others); the GET and POST requests of \<open>c\<close> are numbered from 0, in
  order.

  One window: let the clock readings of the run lie in the window of 3600 seconds that
  starts at \<open>t0\<close>, and let \<open>k\<close> of the timestamps the map holds for \<open>c\<close> be inside that
  window and the others have left it. Then request \<open>i\<close> of \<open>c\<close> is answered with 429
  exactly when \<open>k + i\<close> has reached 150: the limiter admits exactly 150 requests in the
  window, the \<open>k\<close> earlier ones counted, and an identity all of whose earlier timestamps
  have left the window is admitted 150 times again and rejected the 151st time. After the
  run, what the limiter finds of \<open>c\<close> at any clock reading of the window is the
  timestamps that were inside the window followed by the clock readings of the admitted
  requests only, and once a request of \<open>c\<close> was admitted this is all the map stores for
  \<open>c\<close>.

  The window slides: if the clock never goes back during the run, then whatever the map
  holds for \<open>c\<close>, request \<open>i\<close> is rejected exactly when at least 150 of the timestamps
  counted so far (those the map held, and the clock readings of the requests of \<open>c\<close>
  admitted before) are less than 3600 seconds older than its clock reading.

  Every rejection is the 429 response with \<^verbatim>\<open>retryAfter\<close> 3600, and whatever the state and
  the request, a request answered with 429 leaves the whole map as it was.
\<close>

theorem rate_limit_admits_150:
  fixes reqs :: "(env \<times> request) list" and c :: string and rl :: rateLimiter and t0 :: int
  defines "A \<equiv> answers c reqs (fst (serve rl reqs))"
    and "k \<equiv> length (live t0 (record_of rl c))"
  assumes "distinct (map fst rl)"
  shows "((\<forall>t \<in> set (record_of rl c). expired t0 t \<or> in_window t0 t) \<and>
          (\<forall>x \<in> set reqs. in_window t0 (date_now (fst x))) \<longrightarrow>
            (\<forall>i < length A. (status (A ! i) = 429) = (150 \<le> k + i)) \<and>
            (\<forall>now. in_window t0 now \<longrightarrow>
               recent now (record_of (snd (serve rl reqs)) c) =
                 live t0 (record_of rl c) @ take (150 - k) (clocks c reqs)) \<and>
            (k < 150 \<and> clocks c reqs \<noteq> [] \<longrightarrow>
               record_of (snd (serve rl reqs)) c =
                 live t0 (record_of rl c) @ take (150 - k) (clocks c reqs))) \<and>
         (sorted (map (\<lambda>x. date_now (fst x)) reqs) \<longrightarrow>
            map (\<lambda>r. status r = 429) A = sliding (record_of rl c) (clocks c reqs)) \<and>
         (\<forall>r \<in> set A. status r = 429 \<longrightarrow>
            r = too_many \<and> body_field r ''retryAfter'' = Some (JNum 3600)) \<and>
         (status (fst (handler e rl' req)) = 429 \<longrightarrow> snd (handler e rl' req) = rl')"
proof -
  have window: "(\<forall>i < length A. (status (A ! i) = 429) = (150 \<le> k + i)) \<and>
      (\<forall>now. in_window t0 now \<longrightarrow>
         recent now (record_of (snd (serve rl reqs)) c) =
           live t0 (record_of rl c) @ take (150 - k) (clocks c reqs)) \<and>
      (k < 150 \<and> clocks c reqs \<noteq> [] \<longrightarrow>
         record_of (snd (serve rl reqs)) c =
           live t0 (record_of rl c) @ take (150 - k) (clocks c reqs))"
    if inv: "\<forall>t \<in> set (record_of rl c). expired t0 t \<or> in_window t0 t"
      and win: "\<forall>x \<in> set reqs. in_window t0 (date_now (fst x))"
  proof -
    note run = serve_run [OF assms(3) inv win, folded A_def k_def]
    have n: "length (clocks c reqs) = length A"
      by (simp add: A_def length_answers)
    have verdict: "(status (A ! i) = 429) = (150 \<le> k + i)" if "i < length A" for i
    proof -
      have "(status (A ! i) = 429) = map (\<lambda>r. status r = 429) A ! i"
        using that by simp
      also have "\<dots> = (150 \<le> k + i)"
        using run that by (auto simp: verdicts_def n nth_append)
      finally show ?thesis .
    qed
    from run have final: "live t0 (record_of (snd (serve rl reqs)) c) =
        live t0 (record_of rl c) @ take (150 - k) (clocks c reqs)"
      and inv': "\<forall>t \<in> set (record_of (snd (serve rl reqs)) c). expired t0 t \<or> in_window t0 t"
      by simp_all
    have seen: "recent now (record_of (snd (serve rl reqs)) c) =
        live t0 (record_of rl c) @ take (150 - k) (clocks c reqs)" if "in_window t0 now" for now
      using recent_live [OF that inv'] final by simp
    have stored: "record_of (snd (serve rl reqs)) c =
        live t0 (record_of rl c) @ take (150 - k) (clocks c reqs)"
      if "k < 150 \<and> clocks c reqs \<noteq> []"
    proof -
      from run that have "\<forall>t \<in> set (record_of (snd (serve rl reqs)) c). in_window t0 t"
        by blast
      then have "live t0 (record_of (snd (serve rl reqs)) c) = record_of (snd (serve rl reqs)) c"
        by (rule live_all)
      with final show ?thesis by simp
    qed
    show ?thesis
      using verdict seen stored by blast
  qed
  have slides: "map (\<lambda>r. status r = 429) A = sliding (record_of rl c) (clocks c reqs)"
    if mono: "sorted (map (\<lambda>x. date_now (fst x)) reqs)"
  proof (cases reqs)
    case Nil
    then show ?thesis by (simp add: A_def answers_def clocks_def)
  next
    case (Cons x rest)
    with mono have "\<forall>y \<in> set reqs. date_now (fst x) \<le> date_now (fst y)"
      by auto
    with assms(3) mono show ?thesis
      unfolding A_def by (rule serve_sliding) simp
  qed
  have rejected: "r = too_many \<and> body_field r ''retryAfter'' = Some (JNum 3600)"
    if "r \<in> set A" and "status r = 429" for r
  proof -
    from that(1) have "r \<in> set (fst (serve rl reqs))"
      using answers_subset by (auto simp: A_def)
    then have "r = too_many" using that(2) by (rule serve_too_many)
    then show ?thesis by (simp add: retryAfter_too_many)
  qed
  have unchanged: "snd (handler e rl' req) = rl'" if "status (fst (handler e rl' req)) = 429"
    using status_429_unchanged [OF that] by simp
  show ?thesis
    using window slides rejected unchanged by blast
qed

text \<open>
  One window: an identity that used up its 150 requests at 0 ms comes back one hour
  later, with a GET request at 3600000 ms and 150 more at 7199999 ms, the last instant of
  the window that starts at 3600000 ms. The first 150 of them are admitted, the 151st is
  rejected, and the map then stores the clock readings of the 150 admitted requests and
  nothing else.

  The window slides: an identity with 149 requests at 0 ms and one at 1000 ms is rejected
  at 3599999 ms, admitted at 3600000 ms, when the 149 have left the window, and
  admitted at 3601000 ms.
\<close>

theorem rate_limit_admits_150_witness:
  "status (fst (serve [(''unknown'', replicate 150 0)]
      ((\<lparr>date_now = 3600000, math_random = 1 / 2, fetch = (\<lambda>url. Rejected),
         toISOString = (\<lambda>k. js ''T''), upper_mapping = sample_upper\<rparr>,
        \<lparr>req_method = ''GET'', req_headers = Map.empty, remoteAddress = None,
         query = Map.empty, req_body = None\<rparr>) #
       replicate 150
        (\<lparr>date_now = 7199999, math_random = 1 / 2, fetch = (\<lambda>url. Rejected),
          toISOString = (\<lambda>k. js ''T''), upper_mapping = sample_upper\<rparr>,
         \<lparr>req_method = ''GET'', req_headers = Map.empty, remoteAddress = None,
          query = Map.empty, req_body = None\<rparr>))) ! 149) \<noteq> 429 \<and>
   fst (serve [(''unknown'', replicate 150 0)]
      ((\<lparr>date_now = 3600000, math_random = 1 / 2, fetch = (\<lambda>url. Rejected),
         toISOString = (\<lambda>k. js ''T''), upper_mapping = sample_upper\<rparr>,
        \<lparr>req_method = ''GET'', req_headers = Map.empty, remoteAddress = None,
         query = Map.empty, req_body = None\<rparr>) #
       replicate 150
        (\<lparr>date_now = 7199999, math_random = 1 / 2, fetch = (\<lambda>url. Rejected),
          toISOString = (\<lambda>k. js ''T''), upper_mapping = sample_upper\<rparr>,
         \<lparr>req_method = ''GET'', req_headers = Map.empty, remoteAddress = None,
          query = Map.empty, req_body = None\<rparr>))) ! 150 = too_many \<and>
   record_of (snd (serve [(''unknown'', replicate 150 0)]
      ((\<lparr>date_now = 3600000, math_random = 1 / 2, fetch = (\<lambda>url. Rejected),
         toISOString = (\<lambda>k. js ''T''), upper_mapping = sample_upper\<rparr>,
        \<lparr>req_method = ''GET'', req_headers = Map.empty, remoteAddress = None,
         query = Map.empty, req_body = None\<rparr>) #
       replicate 150
        (\<lparr>date_now = 7199999, math_random = 1 / 2, fetch = (\<lambda>url. Rejected),
          toISOString = (\<lambda>k. js ''T''), upper_mapping = sample_upper\<rparr>,
         \<lparr>req_method = ''GET'', req_headers = Map.empty, remoteAddress = None,
          query = Map.empty, req_body = None\<rparr>)))) ''unknown'' =
     3600000 # replicate 149 7199999 \<and>
   map (\<lambda>r. status r = 429) (fst (serve [(''unknown'', replicate 149 0 @ [1000])]
      [(\<lparr>date_now = 3599999, math_random = 1 / 2, fetch = (\<lambda>url. Rejected),
         toISOString = (\<lambda>k. js ''T''), upper_mapping = sample_upper\<rparr>,
        \<lparr>req_method = ''GET'', req_headers = Map.empty, remoteAddress = None,
         query = Map.empty, req_body = None\<rparr>),
       (\<lparr>date_now = 3600000, math_random = 1 / 2, fetch = (\<lambda>url. Rejected),
         toISOString = (\<lambda>k. js ''T''), upper_mapping = sample_upper\<rparr>,
        \<lparr>req_method = ''GET'', req_headers = Map.empty, remoteAddress = None,
         query = Map.empty, req_body = None\<rparr>),
       (\<lparr>date_now = 3601000, math_random = 1 / 2, fetch = (\<lambda>url. Rejected),
         toISOString = (\<lambda>k. js ''T''), upper_mapping = sample_upper\<rparr>,
        \<lparr>req_method = ''GET'', req_headers = Map.empty, remoteAddress = None,
         query = Map.empty, req_body = None\<rparr>)])) = [True, False, False]"
proof -
  define env_at where "env_at now =
    \<lparr>date_now = now, math_random = 1 / 2, fetch = (\<lambda>url :: jstring. Rejected),
     toISOString = (\<lambda>k :: nat. js ''T''), upper_mapping = sample_upper\<rparr>" for now :: int
  define req0 where "req0 =
    \<lparr>req_method = ''GET'', req_headers = Map.empty, remoteAddress = None,
     query = Map.empty, req_body = None\<rparr>"
  have client: "from_client ''unknown'' req0"
    by (simp add: from_client_def clientIP_def orElse_def falsy_def req0_def)
  have clock: "date_now (env_at now) = now" for now
    by (simp add: env_at_def)

  define R where "R = (env_at 3600000, req0) # replicate 150 (env_at 7199999, req0)"
  define rl :: rateLimiter where "rl = [(''unknown'', replicate 150 0)]"
  have len: "length (fst (serve rl R)) = 151"
    unfolding length_serve by (simp add: R_def)
  have "\<forall>x \<in> set R. from_client ''unknown'' (snd x)"
    by (simp add: R_def client)
  then have ans: "answers ''unknown'' R (fst (serve rl R)) = fst (serve rl R)"
    using length_serve by (rule answers_all)
  have clk: "clocks ''unknown'' R = 3600000 # replicate 150 7199999"
    by (simp add: clocks_def R_def client clock)
  have win: "\<forall>x \<in> set R. in_window 3600000 (date_now (fst x))"
    by (simp add: R_def in_window_def clock)
  have keys: "distinct (map fst rl)"
    by (simp add: rl_def)
  have old: "\<forall>t \<in> set (record_of rl ''unknown''). expired 3600000 t \<or> in_window 3600000 t"
    by (simp add: rl_def record_of_def expired_def)
  have none: "live 3600000 (record_of rl ''unknown'') = []"
    by (simp add: rl_def record_of_def live_def in_window_def)
  from rate_limit_admits_150 [OF keys, where ?t0.0 = 3600000 and c = "''unknown''" and reqs = R] old win
  have verdict: "\<forall>i < length (fst (serve rl R)). (status (fst (serve rl R) ! i) = 429) = (150 \<le> i)"
    and stored: "record_of (snd (serve rl R)) ''unknown'' = take 150 (3600000 # replicate 150 7199999)"
    and shape: "\<forall>r \<in> set (fst (serve rl R)). status r = 429 \<longrightarrow> r = too_many"
    unfolding ans clk none by simp_all
  from verdict len have "status (fst (serve rl R) ! 149) \<noteq> 429" and "status (fst (serve rl R) ! 150) = 429"
    by simp_all
  moreover from len have "fst (serve rl R) ! 150 \<in> set (fst (serve rl R))"
    by simp
  ultimately have one: "status (fst (serve rl R) ! 149) \<noteq> 429 \<and> fst (serve rl R) ! 150 = too_many \<and>
    record_of (snd (serve rl R)) ''unknown'' = 3600000 # replicate 149 7199999"
    using shape stored by simp

  define S where "S = [(env_at 3599999, req0), (env_at 3600000, req0), (env_at 3601000, req0)]"
  define sl :: rateLimiter where "sl = [(''unknown'', replicate 149 0 @ [1000])]"
  have "\<forall>x \<in> set S. from_client ''unknown'' (snd x)"
    by (simp add: S_def client)
  then have ans': "answers ''unknown'' S (fst (serve sl S)) = fst (serve sl S)"
    using length_serve by (rule answers_all)
  have clk': "clocks ''unknown'' S = [3599999, 3600000, 3601000]"
    by (simp add: clocks_def S_def client clock)
  have keys': "distinct (map fst sl)"
    by (simp add: sl_def)
  have mono: "sorted (map (\<lambda>x. date_now (fst x)) S)"
    by (simp add: S_def clock)
  have law: "sliding (record_of sl ''unknown'') [3599999, 3600000, 3601000] = [True, False, False]"
    by (simp add: sl_def record_of_def)
  from rate_limit_admits_150 [OF keys', where c = "''unknown''" and reqs = S] mono
  have two: "map (\<lambda>r. status r = 429) (fst (serve sl S)) = [True, False, False]"
    unfolding ans' clk' law by simp
  from one two show ?thesis
    by (simp add: R_def rl_def S_def sl_def env_at_def req0_def)
qed

section \<open>The rule tables and format validation\<close>

subsection \<open>Keys\<close>

lemma js_eq_iff: "(js a = js b) = (a = b)"
proof -
  have "inj (of_char :: char \<Rightarrow> nat)" by (rule injI) simp
  then show ?thesis by (simp add: js_def inj_map_eq_map)
qed

lemma length_js: "length (js s) = length s"
  by (simp add: js_def)

lemma js_append: "js (a @ b) = js a @ js b"
  by (simp add: js_def)

lemma lookup_js: "lookup table (js k) = map_of table k"
  unfolding lookup_def by (induction table) (auto simp: js_eq_iff)

lemma lookup_SomeD: "lookup table key = Some v \<Longrightarrow> \<exists>k. (k, v) \<in> set table \<and> key = js k"
  unfolding lookup_def by (induction table) (auto split: if_splits)

lemma lookup_NoneD: "lookup table key = None \<Longrightarrow> key = js k \<Longrightarrow> k \<notin> set (map fst table)"
  by (simp add: lookup_js map_of_eq_None_iff)

subsection \<open>What a pattern accepts\<close>

lemma test_Rep:
  "test (Rep cs m n) s = (m \<le> length s \<and> length s \<le> n \<and> list_all (\<lambda>u. u \<in> set (js cs)) s)"
proof -
  have "([] \<in> set (rep_match cs m n s)) =
      (m \<le> length s \<and> length s \<le> n \<and> list_all (\<lambda>u. u \<in> set (js cs)) s)"
  proof (induction n arbitrary: m s)
    case 0
    then show ?case by auto
  next
    case (Suc n)
    show ?case
    proof (cases s)
      case Nil
      then show ?thesis by auto
    next
      case (Cons u t)
      with Suc [of "m - 1" t] show ?thesis by auto
    qed
  qed
  then show ?thesis by (simp add: test_def)
qed

lemma rep_match_fixed:
  "set (rep_match cs k k s) =
     (if k \<le> length s \<and> list_all (\<lambda>u. u \<in> set (js cs)) (take k s) then {drop k s} else {})"
proof (induction k arbitrary: s)
  case 0
  then show ?case by simp
next
  case (Suc k)
  then show ?case by (cases s) auto
qed

lemma test_Seq: "test (Seq a b) s = (\<exists>m \<in> set (rx a s). test b m)"
  by (auto simp: test_def)

lemma test_Seq_Rep:
  "test (Seq (Rep cs k k) r) s =
     (k \<le> length s \<and> list_all (\<lambda>u. u \<in> set (js cs)) (take k s) \<and> test r (drop k s))"
  by (auto simp: test_Seq rep_match_fixed)

lemma test_Seq_Cls:
  "test (Seq (Cls cs) r) s =
     (1 \<le> length s \<and> list_all (\<lambda>u. u \<in> set (js cs)) (take 1 s) \<and> test r (drop 1 s))"
  by (cases s) (simp_all add: test_Seq)

lemma test_Seq_Lit:
  "test (Seq (Lit l) r) s = (take (length l) s = js l \<and> test r (drop (length l) s))"
  by (simp add: test_Seq)

lemma test_Alt: "test (Alt a b) s = (test a s \<or> test b s)"
  by (auto simp: test_def)

lemma test_Cls: "test (Cls cs) s = (length s = 1 \<and> list_all (\<lambda>u. u \<in> set (js cs)) s)"
proof (cases s)
  case Nil
  then show ?thesis by (simp add: test_def)
next
  case (Cons u t)
  then show ?thesis by (cases t) (auto simp: test_def)
qed

text \<open>The character classes of the patterns.\<close>

lemma in_digit: "(u \<in> set (js digit)) = decimal u"
  by (simp add: digit_def decimal_def)

lemma in_A_Z: "(u \<in> set (js A_Z)) = capital u"
  by (simp add: A_Z_def capital_def)

lemma in_A_Z0_9: "(u \<in> set (js A_Z0_9)) = (capital u \<or> decimal u)"
  by (simp add: A_Z0_9_def js_append in_digit in_A_Z)

lemma in_A_Z_star_plus: "(u \<in> set (js A_Z_star_plus)) = (capital u \<or> u \<in> set (js ''*+''))"
  by (simp add: A_Z_star_plus_def js_append in_A_Z)

lemma in_A_W: "(u \<in> set (js A_W)) = (capital u \<and> u \<notin> set (js ''XYZ''))"
  by (auto simp: A_W_def capital_def js_def)

lemma in_A_HJ_NP_Z0_9:
  "(u \<in> set (js A_HJ_NP_Z0_9)) = (capital u \<and> u \<notin> set (js ''IO'') \<or> decimal u)"
  by (auto simp: A_HJ_NP_Z0_9_def capital_def decimal_def digit_def js_def)

lemmas classes = in_digit in_A_Z in_A_Z0_9 in_A_Z_star_plus in_A_W in_A_HJ_NP_Z0_9

subsection \<open>The patterns and the documented shapes\<close>

text \<open>A pattern that begins with the country code accepts according to what follows the code.\<close>

lemma strip_code:
  assumes "countryCode s = js cc" and "length cc = 2"
  shows "test (Seq (Lit cc) r) s = test r (vatNumber s)"
  using assms by (simp add: test_Seq_Lit countryCode_def vatNumber_def)

lemma wrong_code:
  assumes "countryCode s = js cc" and "length l = 2" and "l \<noteq> cc"
  shows "\<not> test (Seq (Lit l) r) s"
  using assms by (simp add: test_Seq_Lit countryCode_def js_eq_iff)

lemma strip_ATU:
  assumes "countryCode s = js ''AT''"
  shows "test (Seq (Lit ''ATU'') r) s =
    (take 1 (vatNumber s) = js ''U'' \<and> test r (drop 1 (vatNumber s)))"
proof -
  have "take 3 s = take 2 s @ take 1 (drop 2 s)"
    using take_add [of 2 1 s] by simp
  moreover have "js ''ATU'' = js ''AT'' @ js ''U''"
    by (simp add: js_def)
  moreover have "length (take 2 s) = length (js ''AT'')"
    using assms by (simp add: countryCode_def)
  ultimately have "(take 3 s = js ''ATU'') = (take 1 (drop 2 s) = js ''U'')"
    using assms by (simp add: countryCode_def)
  moreover have "length ''ATU'' = 3" and "drop 3 s = drop 1 (drop 2 s)"
    by (simp_all add: eval_nat_numeral)
  ultimately show ?thesis
    unfolding test_Seq_Lit vatNumber_def by (simp only:)
qed

lemma tail_digits: "test (Rep digit k k) n = digits k n"
  by (auto simp: test_Rep digits_def classes)

lemma tail_range:
  "test (Rep digit m k) n = (m \<le> length n \<and> length n \<le> k \<and> list_all decimal n)"
  by (simp add: test_Rep classes)

lemma tail_BE: "test (Alt (Seq (Lit ''0'') (Rep digit 9 9)) (Rep digit 10 10)) n = digits 10 n"
proof -
  have "digits 10 n" if "take 1 n = js ''0''" and "digits 9 (drop 1 n)"
  proof -
    from that(1) have "list_all decimal (take 1 n)" by (simp add: decimal_def js_def)
    with that(2) have "list_all decimal (take 1 n @ drop 1 n)"
      unfolding list_all_append by (simp add: digits_def)
    moreover from that(2) have "length n = 10" by (auto simp: digits_def)
    ultimately show ?thesis by (simp add: digits_def)
  qed
  then show ?thesis
    by (auto simp: test_Alt test_Seq_Lit tail_digits)
qed

lemma tail_BG: "test (Rep digit 9 10) n = (digits 9 n \<or> digits 10 n)"
  by (auto simp: tail_range digits_def)

lemma tail_CZ: "test (Rep digit 8 10) n = (digits 8 n \<or> digits 9 n \<or> digits 10 n)"
  by (auto simp: tail_range digits_def)

lemma tail_LT: "test (Alt (Rep digit 9 9) (Rep digit 12 12)) n = (digits 9 n \<or> digits 12 n)"
  by (simp add: test_Alt tail_digits)

lemma tail_CY:
  "test (Seq (Rep digit 8 8) (Cls A_Z)) n =
     (length n = 9 \<and> digits 8 (take 8 n) \<and> list_all capital (drop 8 n))"
  by (auto simp: test_Seq_Rep test_Cls digits_def classes)

lemma tail_ES:
  "test (Seq (Cls A_Z0_9) (Seq (Rep digit 7 7) (Cls A_Z0_9))) n =
     (length n = 9 \<and> list_all (\<lambda>u. capital u \<or> decimal u) (take 1 n) \<and>
      digits 7 (take 7 (drop 1 n)) \<and> list_all (\<lambda>u. capital u \<or> decimal u) (drop 8 n))"
  by (auto simp: test_Seq_Rep test_Seq_Cls test_Cls digits_def classes)

lemma tail_FR:
  "test (Seq (Rep A_HJ_NP_Z0_9 2 2) (Rep digit 9 9)) n =
     (length n = 11 \<and>
      list_all (\<lambda>u. capital u \<and> u \<notin> set (js ''IO'') \<or> decimal u) (take 2 n) \<and>
      digits 9 (drop 2 n))"
  by (auto simp: test_Seq_Rep tail_digits digits_def classes)

lemma tail_IE:
  "test (Alt (Seq (Rep digit 7 7) (Cls A_W))
        (Seq (Cls digit) (Seq (Cls A_Z_star_plus) (Seq (Rep digit 5 5) (Cls A_W))))) n =
     (length n = 8 \<and>
      list_all (\<lambda>u. capital u \<and> u \<notin> set (js ''XYZ'')) (drop 7 n) \<and>
      (digits 7 (take 7 n) \<or>
       digits 1 (take 1 n) \<and>
       list_all (\<lambda>u. capital u \<or> u \<in> set (js ''*+'')) (take 1 (drop 1 n)) \<and>
       digits 5 (take 5 (drop 2 n))))"
  by (auto simp: test_Alt test_Seq_Rep test_Seq_Cls test_Cls digits_def classes
      numeral_2_eq_2 [symmetric])

lemma tail_NL:
  "test (Seq (Rep digit 9 9) (Seq (Lit ''B'') (Rep digit 2 2))) n =
     (length n = 12 \<and> digits 9 (take 9 n) \<and> take 1 (drop 9 n) = js ''B'' \<and>
      digits 2 (drop 10 n))"
  by (auto simp: test_Seq_Rep test_Seq_Lit tail_digits digits_def classes)

lemma tail_RO:
  "test (Rep digit 2 10) n = (2 \<le> length n \<and> length n \<le> 10 \<and> list_all decimal n)"
  by (rule tail_range)

lemmas tails = tail_digits tail_BE tail_BG tail_CZ tail_LT tail_CY tail_ES tail_FR tail_IE
  tail_NL tail_RO

lemma countryCode_js: "countryCode (js s) = js (take 2 s)"
  by (simp add: countryCode_def js_def take_map)

lemma vatNumber_js: "vatNumber (js s) = js (drop 2 s)"
  by (simp add: vatNumber_def js_def drop_map)

lemma shapes_jurisdictions: "map fst shapes = jurisdictions"
  by (simp add: shapes_def jurisdictions_def)

lemma vatFormats_shaped:
  "list_all (\<lambda>entry. fst entry = ''GR'' \<or> (\<forall>s. countryCode s = js (fst entry) \<longrightarrow>
       test (snd entry) s =
         (case map_of shapes (fst entry) of
            None \<Rightarrow> False
          | Some shape \<Rightarrow> shape (vatNumber s)))) vatFormats"
  by (simp add: vatFormats_def shapes_def strip_code strip_ATU tails)

lemma vatFormats_api_shaped:
  "list_all (\<lambda>entry. fst entry = ''GR'' \<or> (\<forall>s. countryCode s = js (fst entry) \<longrightarrow>
       test (snd entry) s =
         (case map_of shapes (fst entry) of
            None \<Rightarrow> False
          | Some shape \<Rightarrow> shape (vatNumber s)))) vatFormats_api"
  by (simp add: vatFormats_api_def shapes_def strip_code strip_ATU tails)

lemma vatFormats_GR: "(''GR'', p) \<in> set vatFormats \<Longrightarrow> p = Seq (Lit ''EL'') (Rep digit 9 9)"
  by (simp add: vatFormats_def)

lemma vatFormats_api_GR: "(''GR'', p) \<in> set vatFormats_api \<Longrightarrow> p = Seq (Lit ''EL'') (Rep digit 9 9)"
  by (simp add: vatFormats_api_def)

lemma vatFormats_keys: "cc \<in> set jurisdictions \<or> cc = ''GR'' \<Longrightarrow> map_of vatFormats cc \<noteq> None"
  by (auto simp: jurisdictions_def vatFormats_def)

lemma vatFormats_api_keys:
  "cc \<in> set jurisdictions \<Longrightarrow> cc \<noteq> ''EL'' \<Longrightarrow> cc \<noteq> ''XI'' \<Longrightarrow> map_of vatFormats_api cc \<noteq> None"
  by (auto simp: jurisdictions_def vatFormats_api_def)

text \<open>
  A table whose patterns accept the documented shapes, and which has an entry for the
  jurisdiction the identifier names, accepts the identifier exactly when it has the
  documented shape.
\<close>

lemma shaped_table:
  assumes shaped: "list_all (\<lambda>entry. fst entry = ''GR'' \<or> (\<forall>s. countryCode s = js (fst entry) \<longrightarrow>
       test (snd entry) s =
         (case map_of shapes (fst entry) of
            None \<Rightarrow> False
          | Some shape \<Rightarrow> shape (vatNumber s)))) formats"
    and greek: "\<And>p. (''GR'', p) \<in> set formats \<Longrightarrow> p = Seq (Lit ''EL'') (Rep digit 9 9)"
    and keys: "\<And>cc. cc \<in> set jurisdictions \<Longrightarrow> countryCode s = js cc \<Longrightarrow> map_of formats cc \<noteq> None"
  shows "(format_check formats s = FormatValid) = documented_shape s"
proof (cases "lookup formats (countryCode s)")
  case None
  have "lookup shapes (countryCode s) = None"
  proof (rule ccontr)
    assume "lookup shapes (countryCode s) \<noteq> None"
    then obtain shape where "lookup shapes (countryCode s) = Some shape" by blast
    from lookup_SomeD [OF this] obtain cc where "(cc, shape) \<in> set shapes"
      and cc: "countryCode s = js cc"
      by blast
    from this(1) have "fst (cc, shape) \<in> fst ` set shapes" by (rule imageI)
    then have "cc \<in> set jurisdictions"
      by (simp add: shapes_jurisdictions [symmetric])
    then have "map_of formats cc \<noteq> None"
      using cc by (rule keys)
    moreover from None have "lookup formats (js cc) = None"
      by (simp only: cc)
    ultimately show False by (simp only: lookup_js)
  qed
  with None show ?thesis
    by (simp add: format_check_def documented_shape_def)
next
  case (Some p)
  from lookup_SomeD [OF this] obtain cc where entry: "(cc, p) \<in> set formats"
    and cc: "countryCode s = js cc"
    by blast
  show ?thesis
  proof (cases "cc = ''GR''")
    case True
    with entry have "p = Seq (Lit ''EL'') (Rep digit 9 9)" by (simp add: greek)
    moreover have "\<not> test (Seq (Lit ''EL'') (Rep digit 9 9)) s"
      using cc True by (intro wrong_code [of s "''GR''"]) simp_all
    moreover have "map_of shapes ''GR'' = None"
      by (simp add: shapes_def)
    then have "lookup shapes (countryCode s) = None"
      unfolding cc True lookup_js .
    ultimately show ?thesis
      using Some by (simp add: format_check_def documented_shape_def)
  next
    case False
    from shaped entry have "fst (cc, p) = ''GR'' \<or> (\<forall>s. countryCode s = js (fst (cc, p)) \<longrightarrow>
       test (snd (cc, p)) s =
         (case map_of shapes (fst (cc, p)) of
            None \<Rightarrow> False
          | Some shape \<Rightarrow> shape (vatNumber s)))"
      unfolding list_all_iff by (rule bspec)
    with False cc have "test p s =
        (case map_of shapes cc of None \<Rightarrow> False | Some shape \<Rightarrow> shape (vatNumber s))"
      by simp
    also have "\<dots> = documented_shape s"
      unfolding documented_shape_def cc lookup_js ..
    finally show ?thesis
      using Some by (simp add: format_check_def)
  qed
qed

lemma tables_agree:
  "key \<noteq> js ''EL'' \<Longrightarrow> key \<noteq> js ''XI'' \<Longrightarrow> lookup vatFormats key = lookup vatFormats_api key"
  by (simp add: lookup_def vatFormats_def vatFormats_api_def)

lemma vatFormats_greece:
  "lookup vatFormats (js ''GR'') = Some (Seq (Lit ''EL'') (Rep digit 9 9)) \<and>
   lookup vatFormats (js ''EL'') = Some (Seq (Lit ''EL'') (Rep digit 9 9))"
  by (simp add: lookup_js vatFormats_def)

lemma format_check_js:
  "format_check formats (js s) =
     (case map_of formats (take 2 s) of
        None \<Rightarrow> UnknownCountry
      | Some pattern \<Rightarrow> if test pattern (js s) then FormatValid else BadFormat)"
  by (simp add: format_check_def countryCode_js lookup_js split: option.splits)

lemma documented_shape_js:
  "documented_shape (js s) =
     (case map_of shapes (take 2 s) of
        None \<Rightarrow> False
      | Some shape \<Rightarrow> shape (js (drop 2 s)))"
  by (simp add: documented_shape_def countryCode_js vatNumber_js lookup_js split: option.splits)

lemma vatFormats_documented: "(format_check vatFormats s = FormatValid) = documented_shape s"
  using vatFormats_shaped vatFormats_GR
proof (rule shaped_table)
  fix cc assume "cc \<in> set jurisdictions"
  then show "map_of vatFormats cc \<noteq> None" by (simp add: vatFormats_keys)
qed

lemma vatFormats_api_documented:
  assumes "countryCode s \<noteq> js ''EL''" and "countryCode s \<noteq> js ''XI''"
  shows "(format_check vatFormats_api s = FormatValid) = documented_shape s"
  using vatFormats_api_shaped vatFormats_api_GR
proof (rule shaped_table)
  fix cc assume "cc \<in> set jurisdictions" and "countryCode s = js cc"
  with assms show "map_of vatFormats_api cc \<noteq> None"
    by (intro vatFormats_api_keys) auto
qed

lemma BadFormat_js:
  "(format_check formats (js s) = BadFormat) =
     (map_of formats (take 2 s) \<noteq> None \<and> format_check formats (js s) \<noteq> FormatValid)"
  by (auto simp: format_check_def countryCode_js lookup_js split: option.splits)

lemma accepted:
  "list_all (\<lambda>s. format_check vatFormats (js s) = FormatValid)
       [''ATU12345678'', ''BE0123456789'', ''BE1234567890'', ''BG123456789'', ''BG1234567890'',
        ''CY12345678X'', ''CZ12345678'', ''CZ123456789'', ''CZ1234567890'', ''DE123456789'',
        ''DK12345678'', ''EE123456789'', ''EL123456789'', ''ESA1234567B'', ''ES012345678'',
        ''FI12345678'', ''FRXX123456789'', ''FR12345678901'', ''HR12345678901'',
        ''HU12345678'', ''IE1234567W'', ''IE1A23456B'', ''IE1+23456A'', ''IT12345678901'',
        ''LT123456789'', ''LT123456789012'', ''LU12345678'', ''LV12345678901'', ''MT12345678'',
        ''NL123456789B01'', ''PL1234567890'', ''PT123456789'', ''RO12'', ''RO1234567890'',
        ''SE123456789012'', ''SI12345678'', ''SK1234567890'', ''XI123456789'']"
  unfolding vatFormats_documented documented_shape_js
  by (simp add: shapes_def digits_def decimal_def capital_def js_def)

lemma refused:
  "list_all (\<lambda>s. format_check vatFormats (js s) = BadFormat)
       [''AT12345678'', ''ATU1234567'', ''BE123456789'', ''BG12345678'', ''CY123456789'',
        ''CZ1234567'', ''DE12345678'', ''DE1234567890'', ''DK1234567'', ''EE12345678'',
        ''EL12345678'', ''GR123456789'', ''ES12345678'', ''FI1234567'', ''FRIA123456789'',
        ''FRAO123456789'', ''HR1234567890'', ''HU123456789'', ''IE1234567X'', ''IE12345678'',
        ''IT'', ''IT1234567890'', ''LT1234567890'', ''LU1234567'', ''LV1234567890'',
        ''MT1234567'', ''NL123456789A01'', ''NL123456789B1'', ''PL123456789'', ''PT12345678'',
        ''RO1'', ''RO12345678901'', ''SE12345678901'', ''SI123456789'', ''SK123456789'',
        ''XI12345678'', ''DE12345678A'']"
  unfolding BadFormat_js vatFormats_documented documented_shape_js
  by (simp add: vatFormats_def shapes_def digits_def decimal_def capital_def js_def)

lemma accepted_api:
  "list_all (\<lambda>s. format_check vatFormats_api (js s) = FormatValid)
     [''ATU12345678'', ''BE0123456789'', ''BE1234567890'', ''BG123456789'', ''BG1234567890'',
      ''CY12345678X'', ''CZ12345678'', ''CZ123456789'', ''CZ1234567890'', ''DE123456789'',
      ''DK12345678'', ''EE123456789'', ''ESA1234567B'', ''ES012345678'', ''FI12345678'',
      ''FRXX123456789'', ''FR12345678901'', ''HR12345678901'', ''HU12345678'', ''IE1234567W'',
      ''IE1A23456B'', ''IE1+23456A'', ''IT12345678901'', ''LT123456789'', ''LT123456789012'',
      ''LU12345678'', ''LV12345678901'', ''MT12345678'', ''NL123456789B01'', ''PL1234567890'',
      ''PT123456789'', ''RO12'', ''RO1234567890'', ''SE123456789012'', ''SI12345678'',
      ''SK1234567890'']"
  (is "list_all _ ?xs")
proof -
  have "list_all (\<lambda>s. documented_shape (js s) \<and> take 2 s \<noteq> ''EL'' \<and> take 2 s \<noteq> ''XI'') ?xs"
    unfolding documented_shape_js
    by (simp add: shapes_def digits_def decimal_def capital_def js_def)
  then show ?thesis
  proof (rule list.pred_mono_strong)
    fix s assume "documented_shape (js s) \<and> take 2 s \<noteq> ''EL'' \<and> take 2 s \<noteq> ''XI''"
    then show "format_check vatFormats_api (js s) = FormatValid"
      by (simp add: vatFormats_api_documented countryCode_js js_eq_iff)
  qed
qed

text \<open>
  C3. The table of \<^verbatim>\<open>part_000\<close> has the entries \<open>GR\<close> and \<open>EL\<close> with one pattern
  (lemma \<open>vatFormats_greece\<close>). The table of \<^verbatim>\<open>check-vat.js\<close> has \<open>GR\<close> only, with the pattern that asks
  for the prefix \<open>EL\<close>: a GET request for \<open>EL123456789\<close> is answered with the 400 for an
  unknown country.
\<close>

theorem greece_unknown_in_api:
  "lookup vatFormats_api (js ''GR'') = Some (Seq (Lit ''EL'') (Rep digit 9 9)) \<and>
   lookup vatFormats_api (js ''EL'') = None \<and>
   handler_api (e\<lparr>upper_mapping := sample_upper\<rparr>)
     \<lparr>req_method = ''GET'', req_headers = Map.empty, remoteAddress = None,
      query = [''vatId'' \<mapsto> js ''EL123456789''], req_body = None\<rparr> =
     respond 400
       [(''vatId'', Some (JStr (js ''EL123456789''))),
        (''valid'', Some (JBool False)),
        (''error'', Some (JStr (js ''Unbekanntes Land oder ung'' @ ue @ js ''ltiges Format''))),
        (''formatValid'', Some (JBool False))]"
proof -
  have clean: "cleanVatId sample_upper (js ''EL123456789'') = js ''EL123456789''"
    by (simp add: js_def cleanVatId_def toUpperCase_def strip_whitespace_def whitespace_def
        sample_upper_def high_surrogate_def low_surrogate_def code_units_def)
  have entries: "lookup vatFormats_api (js ''GR'') = Some (Seq (Lit ''EL'') (Rep digit 9 9))"
    "lookup vatFormats_api (js ''EL'') = None"
    by (simp_all add: lookup_js vatFormats_api_def)
  have "format_check vatFormats_api (js ''EL123456789'') = UnknownCountry"
    unfolding format_check_js by (simp add: vatFormats_api_def)
  then have "validate vatFormats_api (e\<lparr>upper_mapping := sample_upper\<rparr>) (js ''EL123456789'') =
     respond 400
       [(''vatId'', Some (JStr (js ''EL123456789''))),
        (''valid'', Some (JBool False)),
        (''error'', Some (JStr (js ''Unbekanntes Land oder ung'' @ ue @ js ''ltiges Format''))),
        (''formatValid'', Some (JBool False))]"
    by (simp add: validate_def)
  moreover have "js ''EL123456789'' \<noteq> []"
    by (simp add: js_def)
  ultimately show ?thesis
    using entries clean by (simp add: handler_api_def check_vat_api_def get_vatId_def)
qed

text \<open>
  C4, with \<open>XI\<close> scoped to the handler that announces it. Every jurisdiction has a
  documented shape. In \<^verbatim>\<open>part_000\<close> each of the 27 member states' codes, \<open>XI\<close> and the
  synonym \<open>GR\<close> has an entry, and an identifier passes format validation exactly when it
  has the documented shape of the jurisdiction its prefix names; so do the identifiers
  listed, one or more for each jurisdiction and each alternative of its shape, while
  those of the second list (a digit run too short or too long, a letter out of range, the
  prefix \<open>GR\<close>) find an entry that rejects them. The table of \<^verbatim>\<open>check-vat.js\<close> has no
  entry for \<open>XI\<close>; each code other than \<open>EL\<close> and \<open>XI\<close> has an entry there, and an
  identifier with such a prefix passes that handler's format validation exactly when it
  has the documented shape.
\<close>

theorem tables_cover_jurisdictions:
  "map fst shapes = jurisdictions \<and>
   (\<forall>cc \<in> set jurisdictions \<union> {''GR''}. lookup vatFormats (js cc) \<noteq> None) \<and>
   (\<forall>s. (format_check vatFormats s = FormatValid) = documented_shape s) \<and>
   list_all (\<lambda>s. format_check vatFormats (js s) = FormatValid)
     [''ATU12345678'', ''BE0123456789'', ''BE1234567890'', ''BG123456789'', ''BG1234567890'',
      ''CY12345678X'', ''CZ12345678'', ''CZ123456789'', ''CZ1234567890'', ''DE123456789'',
      ''DK12345678'', ''EE123456789'', ''EL123456789'', ''ESA1234567B'', ''ES012345678'',
      ''FI12345678'', ''FRXX123456789'', ''FR12345678901'', ''HR12345678901'', ''HU12345678'',
      ''IE1234567W'', ''IE1A23456B'', ''IE1+23456A'', ''IT12345678901'', ''LT123456789'',
      ''LT123456789012'', ''LU12345678'', ''LV12345678901'', ''MT12345678'',
      ''NL123456789B01'', ''PL1234567890'', ''PT123456789'', ''RO12'', ''RO1234567890'',
      ''SE123456789012'', ''SI12345678'', ''SK1234567890'', ''XI123456789''] \<and>
   list_all (\<lambda>s. format_check vatFormats (js s) = BadFormat)
     [''AT12345678'', ''ATU1234567'', ''BE123456789'', ''BG12345678'', ''CY123456789'',
      ''CZ1234567'', ''DE12345678'', ''DE1234567890'', ''DK1234567'', ''EE12345678'',
      ''EL12345678'', ''GR123456789'', ''ES12345678'', ''FI1234567'', ''FRIA123456789'',
      ''FRAO123456789'', ''HR1234567890'', ''HU123456789'', ''IE1234567X'', ''IE12345678'',
      ''IT'', ''IT1234567890'', ''LT1234567890'', ''LU1234567'', ''LV1234567890'',
      ''MT1234567'', ''NL123456789A01'', ''NL123456789B1'', ''PL123456789'', ''PT12345678'',
      ''RO1'', ''RO12345678901'', ''SE12345678901'', ''SI123456789'', ''SK123456789'',
      ''XI12345678'', ''DE12345678A''] \<and>
   lookup vatFormats_api (js ''XI'') = None \<and>
   (\<forall>cc \<in> set jurisdictions - {''EL'', ''XI''}. lookup vatFormats_api (js cc) \<noteq> None) \<and>
   (\<forall>s. countryCode s \<noteq> js ''EL'' \<and> countryCode s \<noteq> js ''XI'' \<longrightarrow>
      (format_check vatFormats_api s = FormatValid) = documented_shape s) \<and>
   list_all (\<lambda>s. format_check vatFormats_api (js s) = FormatValid)
     [''ATU12345678'', ''BE0123456789'', ''BE1234567890'', ''BG123456789'', ''BG1234567890'',
      ''CY12345678X'', ''CZ12345678'', ''CZ123456789'', ''CZ1234567890'', ''DE123456789'',
      ''DK12345678'', ''EE123456789'', ''ESA1234567B'', ''ES012345678'', ''FI12345678'',
      ''FRXX123456789'', ''FR12345678901'', ''HR12345678901'', ''HU12345678'', ''IE1234567W'',
      ''IE1A23456B'', ''IE1+23456A'', ''IT12345678901'', ''LT123456789'', ''LT123456789012'',
      ''LU12345678'', ''LV12345678901'', ''MT12345678'', ''NL123456789B01'', ''PL1234567890'',
      ''PT123456789'', ''RO12'', ''RO1234567890'', ''SE123456789012'', ''SI12345678'',
      ''SK1234567890'']"
proof -
  have part_000: "\<forall>cc \<in> set jurisdictions \<union> {''GR''}. lookup vatFormats (js cc) \<noteq> None"
    using vatFormats_keys by (auto simp: lookup_js)
  have api: "\<forall>cc \<in> set jurisdictions - {''EL'', ''XI''}. lookup vatFormats_api (js cc) \<noteq> None"
    using vatFormats_api_keys by (auto simp: lookup_js)
  have xi: "lookup vatFormats_api (js ''XI'') = None"
    by (simp add: lookup_js vatFormats_api_def)
  from shapes_jurisdictions part_000 vatFormats_documented accepted refused xi api
    vatFormats_api_documented accepted_api
  show ?thesis by (intro conjI allI impI) blast+
qed

text \<open>
  An identifier of Northern Ireland has the documented shape and passes in \<^verbatim>\<open>part_000\<close>;
  a Swedish one of 11 digits has not and does not; an Irish one of the second form has it
  and passes in \<^verbatim>\<open>check-vat.js\<close>; an Austrian one without the \<open>U\<close> has not and does
  not pass there.
\<close>

theorem tables_cover_jurisdictions_witness:
  "lookup vatFormats (js ''XI'') \<noteq> None \<and>
   documented_shape (js ''XI123456789'') \<and>
   format_check vatFormats (js ''XI123456789'') = FormatValid \<and>
   \<not> documented_shape (js ''SE12345678901'') \<and>
   format_check vatFormats (js ''SE12345678901'') \<noteq> FormatValid \<and>
   documented_shape (js ''IE1+23456A'') \<and>
   format_check vatFormats_api (js ''IE1+23456A'') = FormatValid \<and>
   \<not> documented_shape (js ''AT12345678'') \<and>
   format_check vatFormats_api (js ''AT12345678'') \<noteq> FormatValid"
proof -
  have code: "''XI'' \<in> set jurisdictions \<union> {''GR''}"
    by (simp add: jurisdictions_def)
  have shaped: "documented_shape (js ''XI123456789'')" "\<not> documented_shape (js ''SE12345678901'')"
    "documented_shape (js ''IE1+23456A'')" "\<not> documented_shape (js ''AT12345678'')"
    unfolding documented_shape_js
    by (simp_all add: shapes_def digits_def decimal_def capital_def js_def)
  have prefix: "countryCode (js ''IE1+23456A'') \<noteq> js ''EL'' \<and> countryCode (js ''IE1+23456A'') \<noteq> js ''XI''"
    "countryCode (js ''AT12345678'') \<noteq> js ''EL'' \<and> countryCode (js ''AT12345678'') \<noteq> js ''XI''"
    by (simp_all add: countryCode_js js_eq_iff)
  from tables_cover_jurisdictions have
    entry: "\<forall>cc \<in> set jurisdictions \<union> {''GR''}. lookup vatFormats (js cc) \<noteq> None"
    and part_000: "\<And>s. (format_check vatFormats s = FormatValid) = documented_shape s"
    and api: "\<And>s. countryCode s \<noteq> js ''EL'' \<and> countryCode s \<noteq> js ''XI'' \<Longrightarrow>
      (format_check vatFormats_api s = FormatValid) = documented_shape s"
    by blast+
  from entry code have "lookup vatFormats (js ''XI'') \<noteq> None" by (rule bspec)
  with shaped show ?thesis
    by (simp add: part_000 api [OF prefix(1)] api [OF prefix(2)])
qed

text \<open>
  C4 as stated fails for \<^verbatim>\<open>check-vat.js\<close>: \<open>XI\<close> has no entry there, and an identifier
  of the documented shape of Northern Ireland is an unknown country. So is one of the
  documented shape of Greece, whose code \<open>EL\<close> has no entry there either.
\<close>

theorem vatFormats_api_lacks_XI:
  "lookup vatFormats_api (js ''XI'') = None \<and>
   documented_shape (js ''XI123456789'') \<and>
   test (Seq (Lit ''XI'') (Rep digit 9 9)) (js ''XI123456789'') \<and>
   format_check vatFormats_api (js ''XI123456789'') = UnknownCountry \<and>
   lookup vatFormats_api (js ''EL'') = None \<and>
   documented_shape (js ''EL123456789'') \<and>
   format_check vatFormats_api (js ''EL123456789'') = UnknownCountry"
proof -
  have "documented_shape (js ''XI123456789'')" and "documented_shape (js ''EL123456789'')"
    unfolding documented_shape_js
    by (simp_all add: shapes_def digits_def decimal_def js_def)
  moreover have "test (Seq (Lit ''XI'') (Rep digit 9 9)) (js ''XI123456789'')"
    by (simp add: test_Seq_Lit tail_digits digits_def decimal_def js_def)
  moreover have "format_check vatFormats_api (js ''XI123456789'') = UnknownCountry"
    and "format_check vatFormats_api (js ''EL123456789'') = UnknownCountry"
    unfolding format_check_js by (simp_all add: vatFormats_api_def)
  ultimately show ?thesis
    by (simp add: lookup_js vatFormats_api_def)
qed

text \<open>
  C10. For an identifier whose first two characters are neither \<open>EL\<close> nor \<open>XI\<close>, format
  validation takes the same branch in both handlers, and everything from line 103 of
  \<^verbatim>\<open>part_000\<close> (line 64 of \<^verbatim>\<open>check-vat.js\<close>) on gives the same response, so the same
  \<^verbatim>\<open>formatValid\<close>.
\<close>

theorem format_stage_equivalent:
  assumes "countryCode clean \<noteq> js ''EL''" and "countryCode clean \<noteq> js ''XI''"
  shows "format_check vatFormats clean = format_check vatFormats_api clean \<and>
         validate vatFormats e clean = validate vatFormats_api e clean"
  using tables_agree [OF assms] by (simp add: format_check_def validate_def)

text \<open>A valid German identifier, a short one and an unknown prefix, in \<^verbatim>\<open>check-vat.js\<close>.\<close>

theorem format_stage_equivalent_witness:
  "format_check vatFormats_api (js ''DE123456789'') = FormatValid \<and>
   format_check vatFormats_api (js ''DE12'') = BadFormat \<and>
   format_check vatFormats_api (js ''ZZ123'') = UnknownCountry"
proof -
  have part_000: "format_check vatFormats (js ''DE123456789'') = FormatValid"
    "format_check vatFormats (js ''DE12'') = BadFormat"
    "format_check vatFormats (js ''ZZ123'') = UnknownCountry"
    unfolding format_check_js
    by (simp_all add: vatFormats_def test_Seq_Lit tail_digits digits_def decimal_def js_def)
  have "countryCode (js ''DE123456789'') \<noteq> js ''EL''" "countryCode (js ''DE123456789'') \<noteq> js ''XI''"
    "countryCode (js ''DE12'') \<noteq> js ''EL''" "countryCode (js ''DE12'') \<noteq> js ''XI''"
    "countryCode (js ''ZZ123'') \<noteq> js ''EL''" "countryCode (js ''ZZ123'') \<noteq> js ''XI''"
    by (simp_all add: countryCode_js js_eq_iff)
  then have
    "format_check vatFormats (js ''DE123456789'') = format_check vatFormats_api (js ''DE123456789'')"
    "format_check vatFormats (js ''DE12'') = format_check vatFormats_api (js ''DE12'')"
    "format_check vatFormats (js ''ZZ123'') = format_check vatFormats_api (js ''ZZ123'')"
    using format_stage_equivalent by blast+
  with part_000 show ?thesis by simp
qed

section \<open>The responses\<close>

lemma handler_api_cases:
  assumes "req_method req = ''GET'' \<or> req_method req = ''POST''"
  shows "handler_api e req = check_vat_api e req"
  using assms by (auto simp: handler_api_def)

lemma format_check_GR:
  assumes "countryCode clean = js ''GR''"
  shows "format_check vatFormats clean = BadFormat" and "format_check vatFormats_api clean = BadFormat"
proof -
  have no: "\<not> test (Seq (Lit ''EL'') (Rep digit 9 9)) clean"
    using assms by (intro wrong_code [of clean "''GR''"]) simp_all
  show "format_check vatFormats clean = BadFormat"
    using assms no by (simp add: format_check_def lookup_js vatFormats_def)
  show "format_check vatFormats_api clean = BadFormat"
    using assms no by (simp add: format_check_def lookup_js vatFormats_api_def)
qed

text \<open>
  C8. If the normalized identifier of a GET or POST request starts with \<open>GR\<close>, format
  validation takes the bad-format branch in both handlers (the entry exists, its pattern
  asks for \<open>EL\<close>), and the response is the 400 that names \<open>GR\<close>: of \<^verbatim>\<open>check-vat.js\<close>
  always, of \<^verbatim>\<open>part_000\<close> whenever the limiter admits the request. The response does not
  depend on the outbound call, which is not made.
\<close>

theorem gr_prefix_is_bad_format:
  assumes "req_method req = ''GET'' \<or> req_method req = ''POST''"
    and "get_vatId req = Some vatId" and "vatId \<noteq> []"
    and "countryCode (cleanVatId (upper_mapping e) vatId) = js ''GR''"
  shows "format_check vatFormats (cleanVatId (upper_mapping e) vatId) = BadFormat \<and>
         format_check vatFormats_api (cleanVatId (upper_mapping e) vatId) = BadFormat \<and>
         (rate_limit (date_now e) (clientIP req) rl = Inr rl' \<longrightarrow>
            fst (handler e rl req) =
              respond 400
                [(''vatId'', Some (JStr (cleanVatId (upper_mapping e) vatId))),
                 (''valid'', Some (JBool False)),
                 (''error'',
                    Some (JStr (js ''Format entspricht nicht den Regeln f'' @ ue @ js ''r GR''))),
                 (''formatValid'', Some (JBool False))]) \<and>
         handler_api e req =
           respond 400
             [(''vatId'', Some (JStr (cleanVatId (upper_mapping e) vatId))),
              (''valid'', Some (JBool False)),
              (''error'',
                 Some (JStr (js ''Format entspricht nicht den Regeln f'' @ ue @ js ''r GR''))),
              (''formatValid'', Some (JBool False))]"
  using assms format_check_GR [OF assms(4)]
  by (simp add: handler_cases handler_api_cases check_vat_def check_vat_api_def validate_def
      js_append [symmetric])

text \<open>The identifier \<open>GR123456789\<close>.\<close>

theorem gr_prefix_is_bad_format_witness:
  "format_check vatFormats (js ''GR123456789'') = BadFormat \<and>
   format_check vatFormats_api (js ''GR123456789'') = BadFormat \<and>
   status (handler_api
     \<lparr>date_now = 0, math_random = 1 / 2, fetch = (\<lambda>url. Rejected), toISOString = (\<lambda>k. js ''T''),
      upper_mapping = sample_upper\<rparr>
     \<lparr>req_method = ''GET'', req_headers = Map.empty, remoteAddress = None,
      query = [''vatId'' \<mapsto> js ''gr 123456789''], req_body = None\<rparr>) = 400"
proof -
  define e where "e =
    \<lparr>date_now = 0, math_random = 1 / 2, fetch = (\<lambda>url :: jstring. Rejected),
     toISOString = (\<lambda>k :: nat. js ''T''), upper_mapping = sample_upper\<rparr>"
  define req where "req =
    \<lparr>req_method = ''GET'', req_headers = Map.empty, remoteAddress = None,
     query = [''vatId'' \<mapsto> js ''gr 123456789''], req_body = None\<rparr>"
  have clean: "cleanVatId (upper_mapping e) (js ''gr 123456789'') = js ''GR123456789''"
    by (simp add: e_def js_def cleanVatId_def toUpperCase_def strip_whitespace_def whitespace_def
        sample_upper_def high_surrogate_def low_surrogate_def code_units_def)
  have m: "req_method req = ''GET'' \<or> req_method req = ''POST''"
    and v: "get_vatId req = Some (js ''gr 123456789'')" and n: "js ''gr 123456789'' \<noteq> []"
    by (simp_all add: req_def get_vatId_def js_def)
  have cc: "countryCode (cleanVatId (upper_mapping e) (js ''gr 123456789'')) = js ''GR''"
    by (simp add: clean countryCode_js)
  from gr_prefix_is_bad_format [OF m v n cc, of "[]" "[]"]
  have "format_check vatFormats (js ''GR123456789'') = BadFormat \<and>
    format_check vatFormats_api (js ''GR123456789'') = BadFormat \<and> status (handler_api e req) = 400"
    by (simp add: clean respond_def)
  then show ?thesis by (simp add: e_def req_def)
qed

lemma missing_vatId_part_000:
  assumes "req_method req = ''GET'' \<or> req_method req = ''POST''"
    and "get_vatId req = None \<or> get_vatId req = Some []"
    and "rate_limit (date_now e) (clientIP req) rl = Inr rl'"
  shows "fst (handler e rl req) = missing_vatId \<and> status missing_vatId = 400 \<and>
         body_field missing_vatId ''error'' = Some (JStr (js ''USt-ID ist erforderlich'')) \<and>
         body_field missing_vatId ''usage'' = Some (JStr (js ''GET /api/check-vat?vatId=DE123456789'')) \<and>
         body_field missing_vatId ''formatValid'' = Some (JBool False)"
  using assms
  by (auto simp: handler_cases check_vat_def missing_vatId_def respond_def body_field_def)

text \<open>
  C7. In \<^verbatim>\<open>part_000\<close> a GET or POST request without identifier that the limiter admits
  gets the 400 with \<^verbatim>\<open>error\<close>, \<^verbatim>\<open>usage\<close> and \<^verbatim>\<open>formatValid: false\<close> (the lemma above). In
  \<^verbatim>\<open>check-vat.js\<close> the 400 carries \<^verbatim>\<open>error\<close> and \<^verbatim>\<open>usage\<close> only.
\<close>

theorem missing_vatId_api_lacks_formatValid:
  "handler_api e
     \<lparr>req_method = ''GET'', req_headers = Map.empty, remoteAddress = None,
      query = Map.empty, req_body = None\<rparr> =
     respond 400
       [(''error'', Some (JStr (js ''USt-ID ist erforderlich''))),
        (''usage'', Some (JStr (js ''GET /api/check-vat?vatId=DE123456789'')))] \<and>
   body_field
     (handler_api e
        \<lparr>req_method = ''GET'', req_headers = Map.empty, remoteAddress = None,
         query = Map.empty, req_body = None\<rparr>) ''formatValid'' = None"
  by (simp add: handler_api_def check_vat_api_def get_vatId_def missing_vatId_api_def
      respond_def body_field_def)

lemma vies_try_throws:
  "(\<exists>err. vies_try e clean = Inl err) \<longleftrightarrow> upstream_fails (fetch e (viesUrl clean))"
  by (cases "fetch e (viesUrl clean)") (auto simp: vies_try_def Let_def split: option.splits)

lemma validate_upstream_fails:
  assumes "format_check formats clean = FormatValid"
    and "upstream_fails (fetch e (viesUrl clean))"
  shows "validate formats e clean = vies_catch e clean"
proof -
  from assms(2) obtain err where "vies_try e clean = Inl err"
    using vies_try_throws by blast
  with assms(1) show ?thesis by (simp add: validate_def)
qed

text \<open>
  C2. Take a GET or POST request with an identifier, and let the outbound call fail:
  \<^verbatim>\<open>fetch\<close> rejects, the status is not ok, or the body does not parse (or is \<^verbatim>\<open>null\<close>).
  If the identifier passes format validation, the response of \<^verbatim>\<open>check-vat.js\<close>, and that
  of \<^verbatim>\<open>part_000\<close> when the limiter admits the request, is the one of the \<^verbatim>\<open>catch\<close> block:
  status 200, \<^verbatim>\<open>valid\<close> null, \<^verbatim>\<open>formatValid\<close> true, the country code, a timestamp and
  the message that the format is valid but the online check failed.
\<close>

theorem upstream_failure_is_indeterminate:
  assumes "req_method req = ''GET'' \<or> req_method req = ''POST''"
    and "get_vatId req = Some vatId" and "vatId \<noteq> []"
    and "upstream_fails (fetch e (viesUrl (cleanVatId (upper_mapping e) vatId)))"
  shows "(format_check vatFormats (cleanVatId (upper_mapping e) vatId) = FormatValid \<and>
          rate_limit (date_now e) (clientIP req) rl = Inr rl' \<longrightarrow>
            fst (handler e rl req) = vies_catch e (cleanVatId (upper_mapping e) vatId)) \<and>
         (format_check vatFormats_api (cleanVatId (upper_mapping e) vatId) = FormatValid \<longrightarrow>
            handler_api e req = vies_catch e (cleanVatId (upper_mapping e) vatId)) \<and>
         status (vies_catch e (cleanVatId (upper_mapping e) vatId)) = 200 \<and>
         body_field (vies_catch e (cleanVatId (upper_mapping e) vatId)) ''valid'' = Some JNull \<and>
         body_field (vies_catch e (cleanVatId (upper_mapping e) vatId)) ''formatValid'' = Some (JBool True) \<and>
         body_field (vies_catch e (cleanVatId (upper_mapping e) vatId)) ''countryCode'' =
           Some (JStr (countryCode (cleanVatId (upper_mapping e) vatId))) \<and>
         body_field (vies_catch e (cleanVatId (upper_mapping e) vatId)) ''timestamp'' = Some (JStr (toISOString e 0)) \<and>
         body_field (vies_catch e (cleanVatId (upper_mapping e) vatId)) ''message'' =
           Some (JStr (js ''Format ist g'' @ ue @ js ''ltig, aber Online-Pr'' @ ue @
             js ''fung fehlgeschlagen''))"
proof -
  let ?clean = "cleanVatId (upper_mapping e) vatId"
  have part_000: "fst (handler e rl req) = vies_catch e ?clean"
    if "format_check vatFormats ?clean = FormatValid"
      and "rate_limit (date_now e) (clientIP req) rl = Inr rl'"
    using that assms
    by (simp add: handler_cases check_vat_def validate_upstream_fails)
  have api: "handler_api e req = vies_catch e ?clean"
    if "format_check vatFormats_api ?clean = FormatValid"
    using that assms
    by (simp add: handler_api_cases check_vat_api_def validate_upstream_fails)
  have shape: "status (vies_catch e ?clean) = 200"
    "body_field (vies_catch e ?clean) ''valid'' = Some JNull"
    "body_field (vies_catch e ?clean) ''formatValid'' = Some (JBool True)"
    "body_field (vies_catch e ?clean) ''countryCode'' = Some (JStr (countryCode ?clean))"
    "body_field (vies_catch e ?clean) ''timestamp'' = Some (JStr (toISOString e 0))"
    "body_field (vies_catch e ?clean) ''message'' =
       Some (JStr (js ''Format ist g'' @ ue @ js ''ltig, aber Online-Pr'' @ ue @
             js ''fung fehlgeschlagen''))"
    by (simp_all add: vies_catch_def respond_def body_field_def)
  show ?thesis
    using part_000 api shape by blast
qed

lemma cleanVatId_example: "cleanVatId sample_upper (js ''de 123 456 789'') = js ''DE123456789''"
  by (simp add: js_def cleanVatId_def toUpperCase_def strip_whitespace_def whitespace_def
      sample_upper_def high_surrogate_def low_surrogate_def code_units_def)

lemma format_check_DE: "format_check vatFormats (js ''DE123456789'') = FormatValid"
  unfolding format_check_js
  by (simp add: vatFormats_def test_Seq_Lit tail_digits digits_def decimal_def js_def)

text \<open>The identifier \<open>de 123 456 789\<close> while the registry cannot be reached.\<close>

theorem upstream_failure_is_indeterminate_witness:
  "fst (handler
     \<lparr>date_now = 0, math_random = 1 / 2, fetch = (\<lambda>url. Rejected), toISOString = (\<lambda>k. js ''T''),
      upper_mapping = sample_upper\<rparr>
     []
     \<lparr>req_method = ''GET'', req_headers = Map.empty, remoteAddress = None,
      query = [''vatId'' \<mapsto> js ''de 123 456 789''], req_body = None\<rparr>) =
     vies_catch
       \<lparr>date_now = 0, math_random = 1 / 2, fetch = (\<lambda>url. Rejected), toISOString = (\<lambda>k. js ''T''),
        upper_mapping = sample_upper\<rparr>
       (js ''DE123456789'') \<and>
   body_field
     (vies_catch
       \<lparr>date_now = 0, math_random = 1 / 2, fetch = (\<lambda>url. Rejected), toISOString = (\<lambda>k. js ''T''),
        upper_mapping = sample_upper\<rparr>
       (js ''DE123456789'')) ''valid'' = Some JNull"
proof -
  define e where "e =
    \<lparr>date_now = 0, math_random = 1 / 2, fetch = (\<lambda>url :: jstring. Rejected),
     toISOString = (\<lambda>k :: nat. js ''T''), upper_mapping = sample_upper\<rparr>"
  define req where "req =
    \<lparr>req_method = ''GET'', req_headers = Map.empty, remoteAddress = None,
     query = [''vatId'' \<mapsto> js ''de 123 456 789''], req_body = None\<rparr>"
  have up: "upper_mapping e = sample_upper"
    by (simp add: e_def)
  have m: "req_method req = ''GET'' \<or> req_method req = ''POST''"
    and v: "get_vatId req = Some (js ''de 123 456 789'')" and n: "js ''de 123 456 789'' \<noteq> []"
    by (simp_all add: req_def get_vatId_def js_def)
  have f: "upstream_fails (fetch e (viesUrl (cleanVatId (upper_mapping e) (js ''de 123 456 789''))))"
    by (simp add: e_def)
  have ok: "format_check vatFormats (cleanVatId (upper_mapping e) (js ''de 123 456 789'')) = FormatValid"
    by (simp add: up cleanVatId_example format_check_DE)
  have adm: "rate_limit (date_now e) (clientIP req) [] = Inr [(clientIP req, [0])]"
    by (simp add: rate_limit_def e_def)
  from upstream_failure_is_indeterminate [OF m v n f, of "[]" "[(clientIP req, [0])]"] ok adm
  have "fst (handler e [] req) = vies_catch e (js ''DE123456789'') \<and>
    body_field (vies_catch e (js ''DE123456789'')) ''valid'' = Some JNull"
    by (simp add: up cleanVatId_example)
  then show ?thesis by (simp add: e_def req_def)
qed

end
